theory Spec2Isabelle
  imports Complex_Main
begin

section \<open>JavaScript strings\<close>

text \<open>
  A JavaScript string is a sequence of UTF-16 code units; \<open>length\<close>, indexing,
  \<open>startsWith\<close>, \<open>substring\<close> and regular expressions without the \<open>u\<close> flag
  all work on code units. A code unit is modelled as a natural number below \<open>0x10000\<close>.
  ASCII literals are written \<open>js ''...''\<close>.
\<close>

type_synonym code_unit = nat
type_synonym jsstring = "code_unit list"

definition js :: "string \<Rightarrow> jsstring" where
  "js s = map of_char s"

text \<open>The line feed, and the marker U+27E9 that \<open>parseText\<close> puts in front of the first
  word after a paragraph break.\<close>

definition newline :: code_unit where
  "newline = 0x0A"

definition marker :: code_unit where
  "marker = 0x27E9"

text \<open>What \<open>\s\<close> matches and \<open>trim()\<close> strips: ECMAScript's WhiteSpace and
  LineTerminator code points.\<close>

definition is_space :: "code_unit \<Rightarrow> bool" where
  "is_space c = (c = 0x09 \<or> c = 0x0A \<or> c = 0x0B \<or> c = 0x0C \<or> c = 0x0D \<or> c = 0x20
     \<or> c = 0xA0 \<or> c = 0x1680 \<or> (0x2000 \<le> c \<and> c \<le> 0x200A) \<or> c = 0x2028
     \<or> c = 0x2029 \<or> c = 0x202F \<or> c = 0x205F \<or> c = 0x3000 \<or> c = 0xFEFF)"

text \<open>\<open>s.trim()\<close>.\<close>

definition trim :: "jsstring \<Rightarrow> jsstring" where
  "trim s = rev (dropWhile is_space (rev (dropWhile is_space s)))"

text \<open>\<open>text.split(/\n/)\<close>: one piece per line feed, plus the rest; never an empty array.\<close>

fun split_lines :: "jsstring \<Rightarrow> jsstring list" where
  "split_lines [] = [[]]"
| "split_lines (c # cs) =
     (if c = newline then [] # split_lines cs
      else (case split_lines cs of
              [] \<Rightarrow> [[c]]
            | l # ls \<Rightarrow> (c # l) # ls))"

text \<open>\<open>line.split(/\s+/)\<close>: the pieces between maximal runs of white space; a string
  that starts or ends with white space gives an empty first or last piece.\<close>

function split_spaces :: "jsstring \<Rightarrow> jsstring list" where
  "split_spaces s =
     (let w = takeWhile (\<lambda>c. \<not> is_space c) s;
          r = dropWhile (\<lambda>c. \<not> is_space c) s
      in if r = [] then [w] else w # split_spaces (dropWhile is_space r))"
  by pat_completeness auto
termination
proof (relation "measure length")
  show "wf (measure length)" by simp
next
  fix s :: jsstring and w r
  assume r: "r = dropWhile (\<lambda>c. \<not> is_space c) s" and ne: "r \<noteq> []"
  from ne obtain x r' where xr: "r = x # r'" by (cases r) auto
  have "is_space x"
    using r xr dropWhile_eq_Cons_conv [of "\<lambda>c. \<not> is_space c" s x r'] by simp
  then have "dropWhile is_space r = dropWhile is_space r'" using xr by simp
  moreover have "length (dropWhile is_space r') \<le> length r'" by (rule length_dropWhile_le)
  moreover have "length r \<le> length s" using r by (simp add: length_dropWhile_le)
  ultimately show "(dropWhile is_space r, s) \<in> measure length" using xr by simp
qed

declare split_spaces.simps [simp del]

section \<open>The word stream: \<open>parseText\<close> (rsvp-utils.js)\<close>

text \<open>The paragraph-break token is the one-character string \<open>"\n"\<close>.\<close>

definition break_token :: jsstring where
  "break_token = [newline]"

text \<open>One turn of the loop over the lines: \<open>words\<close> is the array built so far, the
  result is the array after the line.\<close>

definition parse_line :: "jsstring list \<Rightarrow> jsstring \<Rightarrow> jsstring list" where
  "parse_line words raw =
     (let line = trim raw in
      if length line = 0 then words
      else
        let lineWords = filter (\<lambda>w. length w > 0) (split_spaces line) in
        (case lineWords of
           [] \<Rightarrow> words
         | w # ws \<Rightarrow>
             if length words > 0
             then words @ [break_token] @ ((marker # w) # ws)
             else words @ (w # ws)))"

definition parseText :: "jsstring \<Rightarrow> jsstring list" where
  "parseText text = (if text = [] then [] else foldl parse_line [] (split_lines text))"

section \<open>Optimal recognition point (rsvp-utils.js)\<close>

text \<open>
  The table of Unicode letters (general category L, the regular expression \<open>\p{L}\<close>)
  belongs to the JavaScript engine; it is the parameter \<open>L\<close>, a predicate on code points.
\<close>

type_synonym letter_table = "nat \<Rightarrow> bool"

definition is_high_surrogate :: "code_unit \<Rightarrow> bool" where
  "is_high_surrogate c = (0xD800 \<le> c \<and> c \<le> 0xDBFF)"

definition is_low_surrogate :: "code_unit \<Rightarrow> bool" where
  "is_low_surrogate c = (0xDC00 \<le> c \<and> c \<le> 0xDFFF)"

text \<open>The code point that a surrogate pair encodes.\<close>

definition code_point :: "code_unit \<Rightarrow> code_unit \<Rightarrow> nat" where
  "code_point h l = 0x10000 + (h - 0xD800) * 0x400 + (l - 0xDC00)"

text \<open>\<open>word.startsWith('\<rangle>') ? word.substring(1) : word\<close>, with the marker U+27E9.\<close>

definition strip_marker :: "jsstring \<Rightarrow> jsstring" where
  "strip_marker word = (case word of [] \<Rightarrow> [] | c # cs \<Rightarrow> if c = marker then cs else word)"

text \<open>
  \<open>s.replace(/[^\p{L}]/gu, "")\<close>. With the \<open>u\<close> flag the expression reads the string
  code point by code point: a high surrogate followed by a low surrogate is one code
  point, any other code unit is a code point of its own. What is kept is kept as it
  is, so a letter outside the Basic Multilingual Plane stays two code units long.
\<close>

fun keep_letters :: "letter_table \<Rightarrow> jsstring \<Rightarrow> jsstring" where
  "keep_letters L [] = []"
| "keep_letters L [c] = (if L c then [c] else [])"
| "keep_letters L (h # l # cs) =
     (if is_high_surrogate h \<and> is_low_surrogate l
      then (if L (code_point h l) then h # l # keep_letters L cs else keep_letters L cs)
      else (if L h then h # keep_letters L (l # cs) else keep_letters L (l # cs)))"

text \<open>The chain of comparisons at the end of \<open>getORPIndex\<close>.\<close>

definition orp_table :: "nat \<Rightarrow> nat" where
  "orp_table len =
     (if len \<le> 1 then 0
      else if len \<le> 3 then 0
      else if len \<le> 5 then 1
      else if len \<le> 9 then 2
      else if len \<le> 11 then 3
      else if len \<le> 14 then 4
      else if len \<le> 17 then 5
      else 6)"

definition getORPIndex :: "letter_table \<Rightarrow> jsstring \<Rightarrow> nat" where
  "getORPIndex L word =
     (if word = [] then 0
      else
        let cleanWord = strip_marker word;
            len = length (keep_letters L cleanWord)
        in orp_table len)"

text \<open>
  The loop of \<open>getActualORPIndex\<close>: \<open>i\<close> is the index of the head of the remaining
  string, \<open>letterCount\<close> the letters seen so far. \<open>unicodeLetterRegex.test(cleanWord[i])\<close>
  tests one code unit, as the code point of the same number. \<open>None\<close> when the loop
  ends without returning.
\<close>

fun orp_scan :: "letter_table \<Rightarrow> nat \<Rightarrow> jsstring \<Rightarrow> nat \<Rightarrow> nat \<Rightarrow> nat option" where
  "orp_scan L orpIndex [] i letterCount = None"
| "orp_scan L orpIndex (c # cs) i letterCount =
     (if L c
      then (if letterCount = orpIndex then Some i
            else orp_scan L orpIndex cs (i + 1) (letterCount + 1))
      else orp_scan L orpIndex cs (i + 1) letterCount)"

definition getActualORPIndex :: "letter_table \<Rightarrow> jsstring \<Rightarrow> int" where
  "getActualORPIndex L word =
     (if word = [] then 0
      else
        let cleanWord = strip_marker word;
            orpIndex = getORPIndex L cleanWord
        in (case orp_scan L orpIndex cleanWord 0 0 of
              Some i \<Rightarrow> int i
            | None \<Rightarrow> min (int orpIndex) (int (length cleanWord) - 1)))"

text \<open>
  The letter count that the specification speaks of: the number of code points of the
  marker-stripped word that are letters.
\<close>

fun code_points :: "jsstring \<Rightarrow> nat list" where
  "code_points [] = []"
| "code_points [c] = [c]"
| "code_points (h # l # cs) =
     (if is_high_surrogate h \<and> is_low_surrogate l
      then code_point h l # code_points cs
      else h # code_points (l # cs))"

definition spec_letter_count :: "letter_table \<Rightarrow> jsstring \<Rightarrow> nat" where
  "spec_letter_count L word = length (filter L (code_points (strip_marker word)))"

text \<open>
  A fragment of the table of letters, for concrete evaluations: the ASCII and Latin-1
  letters, and the CJK Unified Ideographs Extension B (U+20000 to U+2A6DF).
\<close>

definition sample_letters :: letter_table where
  "sample_letters cp =
     ((0x41 \<le> cp \<and> cp \<le> 0x5A) \<or> (0x61 \<le> cp \<and> cp \<le> 0x7A)
      \<or> (0xC0 \<le> cp \<and> cp \<le> 0xD6) \<or> (0xD8 \<le> cp \<and> cp \<le> 0xF6)
      \<or> (0xF8 \<le> cp \<and> cp \<le> 0xFF) \<or> (0x20000 \<le> cp \<and> cp \<le> 0x2A6DF))"

section \<open>Display delay (rsvp-utils.js)\<close>

text \<open>
  JavaScript numbers are modelled by rationals, computed exactly, with the values that
  a division by zero gives.
\<close>

datatype jsnum = Finite rat | Infinity | MinusInfinity | NaN

definition ends_with_any :: "jsstring \<Rightarrow> jsstring \<Rightarrow> bool" where
  "ends_with_any s cs = (s \<noteq> [] \<and> last s \<in> set cs)"

definition getWordDelay :: "jsstring \<Rightarrow> rat \<Rightarrow> bool \<Rightarrow> rat \<Rightarrow> rat \<Rightarrow> rat \<Rightarrow> jsnum" where
  "getWordDelay word wordsPerMinute pauseOnPunctuation punctuationMultiplier
       wordLengthWPMMultiplier lineBreakMultiplier =
     (if word = [] then (if wordsPerMinute = 0 then Infinity else Finite (60000 / wordsPerMinute))
      else if wordsPerMinute \<le> 0 then Finite 200
      else
        let baseDelay = 60000 / wordsPerMinute in
        if word = break_token then Finite (baseDelay * lineBreakMultiplier)
        else
          let isFirstAfterBreak = (hd word = marker);
              cleanWord = (if isFirstAfterBreak then tl word else word);
              baseDelay = (if isFirstAfterBreak then baseDelay * (3 / 2) else baseDelay);
              baseDelay =
                (if wordLengthWPMMultiplier > 0 \<and> length cleanWord \<ge> 12
                 then baseDelay *
                   (1 + (wordLengthWPMMultiplier / 100) * (of_nat (length cleanWord) - 12))
                 else baseDelay)
          in if pauseOnPunctuation \<and> ends_with_any cleanWord (js ''.!?;:'')
             then Finite (baseDelay * punctuationMultiplier)
             else if pauseOnPunctuation \<and> ends_with_any cleanWord (js '','')
             then Finite (baseDelay * (3 / 2))
             else Finite baseDelay)"

text \<open>\<open>shouldPauseAtWord\<close>.\<close>

definition shouldPauseAtWord :: "int \<Rightarrow> int \<Rightarrow> bool" where
  "shouldPauseAtWord wordIndex pauseAfterWords =
     (if pauseAfterWords \<le> 0 then False
      else if wordIndex \<le> 0 then False
      else wordIndex mod pauseAfterWords = 0)"

section \<open>Chapters and word boundaries (file-parsers.js, epub-structure-parser.js)\<close>

text \<open>
  Of a chapter object the model keeps the title, the plain text and the image markers;
  the identifier, the level, the link and the markup play no part in the word
  boundaries. Titles that the code composes from numbers are kept symbolic.
\<close>

datatype chapter_title =
    Title jsstring
  | FrontMatter
  | ChapterNo nat
  | PageNo nat
  | PagesRange nat nat
  | FileName jsstring

record image =
  src :: jsstring
  alt :: jsstring
  wordPosition :: int
  unavailable :: bool

record raw_chapter =
  title :: chapter_title
  plainText :: jsstring
  images :: "image list"

text \<open>\<open>{...chapter, startWordIndex, endWordIndex, wordCount}\<close>.\<close>

record chapter_wb = raw_chapter +
  startWordIndex :: int
  endWordIndex :: int
  wordCount :: int

record toc_entry =
  toc_title :: chapter_title
  chapterIndex :: nat
  toc_wordCount :: "int option"
  toc_startWordIndex :: "int option"

record content_structure =
  chapters :: "chapter_wb list"
  toc :: "toc_entry list"
  hasStructure :: bool
  images :: "image list"

text \<open>What the two parsers return: \<open>{text, words, contentStructure}\<close>.\<close>

record parsed_document =
  result_text :: jsstring
  result_words :: "jsstring list"
  result_contentStructure :: content_structure

definition with_boundaries :: "raw_chapter \<Rightarrow> int \<Rightarrow> int \<Rightarrow> int \<Rightarrow> chapter_wb" where
  "with_boundaries chapter s e n = raw_chapter.extend chapter (chapter_wb.fields s e n)"

text \<open>\<open>parts.join(sep)\<close> and \<open>xs.slice(a, b)\<close> for indices that are not negative.\<close>

fun join :: "jsstring \<Rightarrow> jsstring list \<Rightarrow> jsstring" where
  "join sep [] = []"
| "join sep [x] = x"
| "join sep (x # y # ys) = x @ sep @ join sep (y # ys)"

definition slice :: "nat \<Rightarrow> nat \<Rightarrow> 'a list \<Rightarrow> 'a list" where
  "slice a b xs = take (b - a) (drop a xs)"

definition page_separator :: jsstring where
  "page_separator = [newline, newline]"

subsection \<open>The PDF path\<close>

text \<open>
  An entry of the PDF outline, with what pdf.js resolves its destination to: the
  0-based index of a page, or nothing.
\<close>

record outline_item =
  item_title :: "jsstring option"
  pageIndex :: "nat option"

definition getOutlinePageNumber :: "outline_item \<Rightarrow> nat" where
  "getOutlinePageNumber item = (case pageIndex item of Some k \<Rightarrow> k + 1 | None \<Rightarrow> 1)"

text \<open>The loop over the outline in \<open>buildChaptersFromOutline\<close>; \<open>i\<close> is the index of the
  head of the remaining outline.\<close>

fun outline_chapters :: "jsstring list \<Rightarrow> nat \<Rightarrow> outline_item list \<Rightarrow> raw_chapter list" where
  "outline_chapters pageTexts i [] = []"
| "outline_chapters pageTexts i (item # rest) =
     (let pageNum = getOutlinePageNumber item;
          nextPageNum = (case rest of
                           [] \<Rightarrow> length pageTexts + 1
                         | nxt # _ \<Rightarrow> getOutlinePageNumber nxt);
          chapterText = join page_separator (slice (pageNum - 1) (nextPageNum - 1) pageTexts)
      in \<lparr> title = (case item_title item of
                       None \<Rightarrow> ChapterNo (i + 1)
                     | Some t \<Rightarrow> if t = [] then ChapterNo (i + 1) else Title t),
            plainText = chapterText,
            images = [] \<rparr>
         # outline_chapters pageTexts (i + 1) rest)"

definition buildChaptersFromOutline :: "outline_item list \<Rightarrow> jsstring list \<Rightarrow> raw_chapter list" where
  "buildChaptersFromOutline outline pageTexts =
     (case outline of
        [] \<Rightarrow> []
      | first # _ \<Rightarrow>
          let firstOutlinePageNum = getOutlinePageNumber first;
              front =
                (if firstOutlinePageNum > 1
                 then [\<lparr> title = FrontMatter,
                         plainText = join page_separator (slice 0 (firstOutlinePageNum - 1) pageTexts),
                         images = [] \<rparr>]
                 else [])
          in front @ outline_chapters pageTexts 0 outline)"

text \<open>\<open>Math.ceil(n / Math.max(1, Math.floor(n / 10)))\<close>.\<close>

definition chunk_size :: "nat \<Rightarrow> nat" where
  "chunk_size n = (let d = max 1 (n div 10) in (n + d - 1) div d)"

function page_chunks :: "jsstring list \<Rightarrow> nat \<Rightarrow> raw_chapter list" where
  "page_chunks pageTexts i =
     (if i < length pageTexts
      then
        let chunkSize = chunk_size (length pageTexts);
            endIdx = min (i + chunkSize) (length pageTexts);
            chapterText = join page_separator (slice i endIdx pageTexts);
            pageStart = i + 1;
            pageEnd = endIdx
        in \<lparr> title = (if length pageTexts \<le> 20 then PageNo pageStart
                         else PagesRange pageStart pageEnd),
              plainText = chapterText,
              images = [] \<rparr>
           # page_chunks pageTexts (i + chunkSize)
      else [])"
  by pat_completeness auto
termination
proof (relation "measure (\<lambda>(pageTexts, i). length pageTexts - i)")
  show "wf (measure (\<lambda>(pageTexts :: jsstring list, i). length pageTexts - i))" by simp
next
  fix pageTexts :: "jsstring list" and i chunkSize
  assume lt: "i < length pageTexts" and c: "chunkSize = chunk_size (length pageTexts)"
  define n where "n = length pageTexts"
  define d where "d = max 1 (n div 10)"
  have "0 < n" using lt by (cases pageTexts) (simp_all add: n_def)
  moreover have "0 < d" by (simp add: d_def)
  ultimately have "d \<le> n + d - 1" by simp
  then have "1 \<le> (n + d - 1) div d" using \<open>0 < d\<close> by (simp add: Suc_le_eq div_greater_zero_iff)
  then have "0 < chunkSize" using c by (simp add: chunk_size_def n_def d_def Let_def)
  then show "((pageTexts, i + chunkSize), (pageTexts, i))
      \<in> measure (\<lambda>(pageTexts, i). length pageTexts - i)" using lt by simp
qed

declare page_chunks.simps [simp del]

definition buildPageBasedChapters :: "jsstring list \<Rightarrow> jsstring \<Rightarrow> raw_chapter list" where
  "buildPageBasedChapters pageTexts fileName =
     (let chapters = page_chunks pageTexts 0
      in (case chapters of
            [c] \<Rightarrow> [c\<lparr> title := FileName fileName \<rparr>]
          | _ \<Rightarrow> chapters))"

text \<open>The loop of \<open>calculateWordBoundaries\<close>, from a running \<open>currentWordIndex\<close>. The
  function takes the parsed words of the whole document and does not read them.\<close>

fun word_boundaries_from :: "int \<Rightarrow> raw_chapter list \<Rightarrow> chapter_wb list" where
  "word_boundaries_from currentWordIndex [] = []"
| "word_boundaries_from currentWordIndex (chapter # rest) =
     (let chapterWords = parseText (plainText chapter);
          startWordIndex = currentWordIndex;
          endWordIndex = currentWordIndex + int (length chapterWords)
      in with_boundaries chapter startWordIndex endWordIndex (int (length chapterWords))
         # word_boundaries_from endWordIndex rest)"

definition calculateWordBoundaries :: "raw_chapter list \<Rightarrow> jsstring list \<Rightarrow> chapter_wb list" where
  "calculateWordBoundaries chapters' words' = word_boundaries_from 0 chapters'"

definition buildTOCFromChapters :: "raw_chapter list \<Rightarrow> toc_entry list" where
  "buildTOCFromChapters chapters' =
     map (\<lambda>(index, chapter).
            \<lparr> toc_title = title chapter, chapterIndex = index,
              toc_wordCount = None, toc_startWordIndex = None \<rparr>)
         (enumerate 0 chapters')"

text \<open>\<open>parsePDFWithStructure\<close> from the page texts on; reading the pages and the
  outline out of the file is pdf.js's work.\<close>

definition parsePDFWithStructure ::
  "jsstring list \<Rightarrow> outline_item list option \<Rightarrow> jsstring \<Rightarrow> parsed_document" where
  "parsePDFWithStructure pageTexts outline fileName =
     (let items = (case outline of None \<Rightarrow> [] | Some entries \<Rightarrow> entries);
          hasOutline = (outline \<noteq> None \<and> length items > 0);
          chapters = (if hasOutline then buildChaptersFromOutline items pageTexts
                      else buildPageBasedChapters pageTexts fileName);
          toc = buildTOCFromChapters chapters;
          fullText = join page_separator pageTexts;
          words = parseText fullText;
          chaptersWithBoundaries = calculateWordBoundaries chapters words
      in \<lparr> result_text = fullText,
            result_words = words,
            result_contentStructure =
              \<lparr> chapters = chaptersWithBoundaries, toc = toc,
                hasStructure = hasOutline, images = [] \<rparr> \<rparr>)"

subsection \<open>The EPUB path\<close>

text \<open>
  The loop of \<open>buildWordBoundaries\<close> from a running \<open>currentWordIndex\<close>: the words, the
  chapters with their boundaries and the image markers that the remaining chapters
  add, in the order in which the loop pushes them.
\<close>

fun boundaries_from ::
  "int \<Rightarrow> raw_chapter list \<Rightarrow> jsstring list \<times> chapter_wb list \<times> image list" where
  "boundaries_from currentWordIndex [] = ([], [], [])"
| "boundaries_from currentWordIndex (chapter # rest) =
     (let chapterWords = parseText (plainText chapter);
          startWordIndex = currentWordIndex;
          endWordIndex = currentWordIndex + int (length chapterWords);
          globalImages =
            map (\<lambda>img. img\<lparr> wordPosition := startWordIndex + wordPosition img \<rparr>)
                (raw_chapter.images chapter);
          (allWords, chaptersWithBoundaries, allImages) = boundaries_from endWordIndex rest
      in (chapterWords @ allWords,
          (with_boundaries chapter startWordIndex endWordIndex (int (length chapterWords)))
            \<lparr> raw_chapter.images := globalImages \<rparr> # chaptersWithBoundaries,
          globalImages @ allImages))"

definition buildWordBoundaries ::
  "raw_chapter list \<Rightarrow> jsstring list \<times> chapter_wb list \<times> image list" where
  "buildWordBoundaries chapters' = boundaries_from 0 chapters'"

definition flattenTOC :: "chapter_wb list \<Rightarrow> toc_entry list" where
  "flattenTOC chapters' =
     map (\<lambda>(index, chapter).
            \<lparr> toc_title = title chapter, chapterIndex = index,
              toc_wordCount = Some (wordCount chapter),
              toc_startWordIndex = Some (startWordIndex chapter) \<rparr>)
         (enumerate 0 chapters')"

text \<open>\<open>parseEPUBWithStructure\<close> from the extracted chapters on; \<open>hasToc\<close> is
  \<open>tocData.length > 0\<close>. Reading the sections out of the file is epub.js's work.\<close>

definition parseEPUBWithStructure :: "raw_chapter list \<Rightarrow> bool \<Rightarrow> parsed_document" where
  "parseEPUBWithStructure chapters' hasToc =
     (case buildWordBoundaries chapters' of
        (allWords, chaptersWithBoundaries, allImages) \<Rightarrow>
          \<lparr> result_text = join (js '' '') allWords,
            result_words = allWords,
            result_contentStructure =
              \<lparr> chapters = chaptersWithBoundaries, toc = flattenTOC chaptersWithBoundaries,
                hasStructure = hasToc, images = allImages \<rparr> \<rparr>)"

text \<open>
  The token-coverage property of a chapter list: the intervals, in order, start at
  \<open>lo\<close>, each starts where the one before ends, none has its end before its start,
  every \<open>wordCount\<close> is the width of its interval, and the last ends at \<open>hi\<close>.
\<close>

fun tiles :: "int \<Rightarrow> chapter_wb list \<Rightarrow> int \<Rightarrow> bool" where
  "tiles lo [] hi = (lo = hi)"
| "tiles lo (c # cs) hi =
     (startWordIndex c = lo \<and> lo \<le> endWordIndex c
      \<and> wordCount c = endWordIndex c - startWordIndex c
      \<and> tiles (endWordIndex c) cs hi)"

section \<open>Double arithmetic\<close>

text \<open>
  \<open>getWordIndexFromScroll\<close> divides, multiplies and floors, and the floor of a product
  depends on how the product is rounded: \<open>100 * (29 / 100)\<close> is
  \<open>28.999999999999996\<close>. Its arithmetic is therefore modelled as the machine does it.
  A finite double is the rational it stands for. \<open>round_double\<close> rounds a rational to
  the nearest double, ties to the even significand (IEEE 754 binary64: a significand of
  53 bits, the exponent of the smallest normal number \<open>-1022\<close>, below it the fixed
  quantum \<open>2 ^ (- 1074)\<close>); \<open>fl\<close> is the result of an operation whose exact value is
  given, with the overflow to an infinity. Negative zero is not told from zero: the two
  differ in no sum with a number other than zero and in no comparison.
\<close>

text \<open>The number of binary digits of a natural number.\<close>

function bit_length :: "nat \<Rightarrow> nat" where
  "bit_length n = (if n = 0 then 0 else Suc (bit_length (n div 2)))"
  by pat_completeness auto

termination
  by (relation "measure id") auto

declare bit_length.simps [simp del]

definition pow2 :: "int \<Rightarrow> rat" where
  "pow2 e = (if 0 \<le> e then 2 ^ nat e else 1 / 2 ^ nat (- e))"

text \<open>For \<open>a > 0\<close>, the exponent \<open>e\<close> with \<open>2 ^ e \<le> a < 2 ^ (e + 1)\<close>.\<close>

definition ilog2 :: "rat \<Rightarrow> int" where
  "ilog2 a =
     (if 1 \<le> a then int (bit_length (nat \<lfloor>a\<rfloor>)) - 1
      else let k = int (bit_length (nat \<lfloor>1 / a\<rfloor>)) - 1
           in if a * pow2 k = 1 then - k else - k - 1)"

definition round_half_even :: "rat \<Rightarrow> int" where
  "round_half_even m =
     (let f = \<lfloor>m\<rfloor>; r = m - of_int f
      in if r < 1 / 2 then f else if 1 / 2 < r then f + 1 else if even f then f else f + 1)"

definition round_double :: "rat \<Rightarrow> rat" where
  "round_double x =
     (if x = 0 then 0
      else
        let a = \<bar>x\<bar>;
            e = max (ilog2 a) (- 1022);
            q = pow2 (e - 52)
        in sgn x * of_int (round_half_even (a / q)) * q)"

definition fl :: "rat \<Rightarrow> jsnum" where
  "fl x =
     (let y = round_double x
      in if 2 ^ 1024 \<le> y then Infinity
         else if y \<le> - (2 ^ 1024) then MinusInfinity
         else Finite y)"

text \<open>The operators \<open>+\<close>, \<open>-\<close>, \<open>*\<close>, \<open>/\<close> and \<open>Math.floor\<close> on numbers.\<close>

fun js_sign :: "jsnum \<Rightarrow> rat" where
  "js_sign (Finite a) = sgn a"
| "js_sign Infinity = 1"
| "js_sign MinusInfinity = - 1"
| "js_sign NaN = 0"

definition signed_infinity :: "rat \<Rightarrow> jsnum" where
  "signed_infinity s = (if s = 0 then NaN else if 0 < s then Infinity else MinusInfinity)"

fun js_neg :: "jsnum \<Rightarrow> jsnum" where
  "js_neg (Finite a) = Finite (- a)"
| "js_neg Infinity = MinusInfinity"
| "js_neg MinusInfinity = Infinity"
| "js_neg NaN = NaN"

fun js_add :: "jsnum \<Rightarrow> jsnum \<Rightarrow> jsnum" where
  "js_add (Finite a) (Finite b) = fl (a + b)"
| "js_add NaN _ = NaN"
| "js_add _ NaN = NaN"
| "js_add Infinity MinusInfinity = NaN"
| "js_add MinusInfinity Infinity = NaN"
| "js_add Infinity _ = Infinity"
| "js_add _ Infinity = Infinity"
| "js_add MinusInfinity _ = MinusInfinity"
| "js_add _ MinusInfinity = MinusInfinity"

definition js_sub :: "jsnum \<Rightarrow> jsnum \<Rightarrow> jsnum" where
  "js_sub x y = js_add x (js_neg y)"

fun js_mul :: "jsnum \<Rightarrow> jsnum \<Rightarrow> jsnum" where
  "js_mul (Finite a) (Finite b) = fl (a * b)"
| "js_mul NaN _ = NaN"
| "js_mul _ NaN = NaN"
| "js_mul x y = signed_infinity (js_sign x * js_sign y)"

text \<open>A zero divisor is taken to be the positive zero.\<close>

fun js_div :: "jsnum \<Rightarrow> jsnum \<Rightarrow> jsnum" where
  "js_div (Finite a) (Finite b) = (if b = 0 then signed_infinity a else fl (a / b))"
| "js_div NaN _ = NaN"
| "js_div _ NaN = NaN"
| "js_div (Finite a) _ = Finite 0"
| "js_div x (Finite b) = signed_infinity (js_sign x * (if 0 \<le> b then 1 else - 1))"
| "js_div _ _ = NaN"

fun js_floor :: "jsnum \<Rightarrow> jsnum" where
  "js_floor (Finite a) = Finite (of_int \<lfloor>a\<rfloor>)"
| "js_floor x = x"

section \<open>Position mapping (content-utils.js)\<close>

text \<open>\<open>xs.findIndex(p)\<close>; \<open>None\<close> stands for the result \<open>-1\<close>.\<close>

fun findIndex :: "('a \<Rightarrow> bool) \<Rightarrow> 'a list \<Rightarrow> nat option" where
  "findIndex p [] = None"
| "findIndex p (x # xs) =
     (if p x then Some 0
      else (case findIndex p xs of None \<Rightarrow> None | Some i \<Rightarrow> Some (i + 1)))"

text \<open>\<open>xs[i]\<close> for a number \<open>i\<close>: \<open>undefined\<close> outside the array.\<close>

definition at_index :: "'a list \<Rightarrow> int \<Rightarrow> 'a option" where
  "at_index xs i = (if 0 \<le> i \<and> i < int (length xs) then Some (xs ! nat i) else None)"

definition getChapterAtWordIndex :: "content_structure option \<Rightarrow> int \<Rightarrow> nat" where
  "getChapterAtWordIndex contentStructure wordIndex =
     (case contentStructure of
        None \<Rightarrow> 0
      | Some cs \<Rightarrow>
          (case findIndex (\<lambda>ch. wordIndex \<ge> startWordIndex ch \<and> wordIndex < endWordIndex ch)
                  (chapters cs) of
             Some index \<Rightarrow> index
           | None \<Rightarrow> 0))"

text \<open>
  The word indices are integers and the percentage is a number; the function's
  subtraction, division, multiplication and addition are those of doubles.
\<close>

definition getWordIndexFromScroll :: "chapter_wb option \<Rightarrow> jsnum \<Rightarrow> jsnum" where
  "getWordIndexFromScroll chapter scrollPercentage =
     (case chapter of
        None \<Rightarrow> Finite 0
      | Some ch \<Rightarrow>
          let chapterWordCount =
                js_sub (Finite (of_int (endWordIndex ch))) (Finite (of_int (startWordIndex ch)));
              offset = js_floor (js_mul chapterWordCount
                                   (js_div scrollPercentage (Finite 100)))
          in js_add (Finite (of_int (startWordIndex ch))) offset)"

definition getScrollPercentageInChapter :: "chapter_wb option \<Rightarrow> int \<Rightarrow> rat" where
  "getScrollPercentageInChapter chapter wordIndex =
     (case chapter of
        None \<Rightarrow> 0
      | Some ch \<Rightarrow>
          let offset = wordIndex - startWordIndex ch;
              total = endWordIndex ch - startWordIndex ch
          in if total = 0 then 0 else (of_int offset / of_int total) * 100)"

section \<open>Session storage (progress-storage.js, indexed-db-storage.js)\<close>

datatype reading_mode = Rsvp | Reader

datatype progress_display = TimerDisplay | PercentageDisplay

record settings =
  wordsPerMinute :: rat
  fadeEnabled :: bool
  fadeDuration :: rat
  pauseOnPunctuation :: bool
  punctuationPauseMultiplier :: rat
  lineBreakPauseMultiplier :: rat
  wordLengthWPMMultiplier :: rat
  pauseAfterWords :: int
  pauseDuration :: rat
  frameWordCount :: int
  showImagesInRSVP :: bool
  imageDurationSeconds :: rat
  chapterProgressDisplayMode :: progress_display

text \<open>The object that \<open>saveSession\<close> receives; \<open>session.text\<close> is \<open>session_text\<close>.\<close>

record session =
  session_text :: jsstring
  session_currentWordIndex :: int
  session_totalWords :: int
  session_readingMode :: reading_mode
  session_currentChapterIndex :: int
  session_readerScrollPosition :: rat
  session_contentStructure :: "content_structure option"
  session_settings :: settings

text \<open>The object \<open>data\<close> that \<open>saveSession\<close> serialises: the chapters without their
  markup and image markers, no global image list, and the time of the save.\<close>

record stored_data =
  data_text :: jsstring
  data_currentWordIndex :: int
  data_totalWords :: int
  data_readingMode :: reading_mode
  data_currentChapterIndex :: int
  data_readerScrollPosition :: rat
  data_contentStructure :: "content_structure option"
  data_settings :: settings
  savedAt :: nat

definition make_data :: "session \<Rightarrow> nat \<Rightarrow> stored_data" where
  "make_data session now =
     \<lparr> data_text = session_text session,
       data_currentWordIndex = session_currentWordIndex session,
       data_totalWords = session_totalWords session,
       data_readingMode = session_readingMode session,
       data_currentChapterIndex = session_currentChapterIndex session,
       data_readerScrollPosition = session_readerScrollPosition session,
       data_contentStructure =
         (case session_contentStructure session of
            None \<Rightarrow> None
          | Some cs \<Rightarrow>
              Some \<lparr> chapters = map (\<lambda>ch. ch\<lparr> raw_chapter.images := [] \<rparr>) (chapters cs),
                     toc = toc cs, hasStructure = hasStructure cs, images = [] \<rparr>),
       data_settings = session_settings session,
       savedAt = now \<rparr>"

text \<open>\<open>new Blob([serialized]).size\<close>: the length of the string in UTF-8, where a lone
  surrogate is written as U+FFFD.\<close>

definition unit_bytes :: "code_unit \<Rightarrow> nat" where
  "unit_bytes c = (if c < 0x80 then 1 else if c < 0x800 then 2 else 3)"

fun utf8_length :: "jsstring \<Rightarrow> nat" where
  "utf8_length [] = 0"
| "utf8_length [c] = unit_bytes c"
| "utf8_length (h # l # cs) =
     (if is_high_surrogate h \<and> is_low_surrogate l then 4 + utf8_length cs
      else unit_bytes h + utf8_length (l # cs))"

text \<open>
  What a write to \<open>localStorage\<close> can throw. The catch block of \<open>saveSession\<close> tells
  a quota error (name \<open>QuotaExceededError\<close> or code 22) from every other error.
\<close>

datatype storage_error = QuotaExceededError | OtherError

datatype parse_result = SyntaxError | Parsed stored_data

text \<open>
  The browser around the store: which writes \<open>localStorage\<close> refuses, given what it
  holds, the key and the value (\<open>None\<close>: the write is done); \<open>JSON.stringify\<close> and
  \<open>JSON.parse\<close>; the clock.
\<close>

record platform =
  setItem_throws :: "(jsstring \<rightharpoonup> jsstring) \<Rightarrow> jsstring \<Rightarrow> jsstring \<Rightarrow> storage_error option"
  stringify :: "stored_data \<Rightarrow> jsstring"
  parse :: "jsstring \<Rightarrow> parse_result"
  now :: nat

datatype access =
    LocalGet jsstring
  | LocalSet jsstring
  | LocalRemove jsstring
  | IdbPut
  | IdbGet

text \<open>
  The two tiers: the items of \<open>localStorage\<close>, the record under \<open>current-session\<close> in
  IndexedDB and whether the database can be opened and used, and the accesses made so
  far, in order.
\<close>

record storage =
  local_items :: "jsstring \<rightharpoonup> jsstring"
  idb_record :: "(session \<times> nat) option"
  idb_available :: bool
  accesses :: "access list"

definition STORAGE_KEY :: jsstring where
  "STORAGE_KEY = js ''rsvp-reading-session''"

definition USE_INDEXEDDB_KEY :: jsstring where
  "USE_INDEXEDDB_KEY = js ''rsvp-use-indexeddb''"

definition testKey :: jsstring where
  "testKey = js ''__localStorage_test__''"

definition getItem :: "storage \<Rightarrow> jsstring \<Rightarrow> jsstring option \<times> storage" where
  "getItem st key = (local_items st key, st\<lparr> accesses := accesses st @ [LocalGet key] \<rparr>)"

definition setItem :: "platform \<Rightarrow> storage \<Rightarrow> jsstring \<Rightarrow> jsstring \<Rightarrow> storage_error option \<times> storage" where
  "setItem env st key v =
     (case setItem_throws env (local_items st) key v of
        Some e \<Rightarrow> (Some e, st\<lparr> accesses := accesses st @ [LocalSet key] \<rparr>)
      | None \<Rightarrow>
          (None, st\<lparr> local_items := (local_items st)(key \<mapsto> v),
                      accesses := accesses st @ [LocalSet key] \<rparr>))"

definition removeItem :: "storage \<Rightarrow> jsstring \<Rightarrow> storage" where
  "removeItem st key =
     st\<lparr> local_items := (local_items st)(key := None),
         accesses := accesses st @ [LocalRemove key] \<rparr>"

text \<open>What \<open>saveSession\<close> gives its caller: \<open>true\<close> or \<open>false\<close>, the promise of
  \<open>saveSessionToIndexedDB\<close> with the value it resolves to, or an exception.\<close>

datatype save_result = Returned bool | Promise bool | Threw storage_error

definition saveSessionToIndexedDB :: "platform \<Rightarrow> storage \<Rightarrow> session \<Rightarrow> save_result \<times> storage" where
  "saveSessionToIndexedDB env st session =
     (if idb_available st
      then (Promise True, st\<lparr> idb_record := Some (session, now env),
                                accesses := accesses st @ [IdbPut] \<rparr>)
      else (Promise False, st\<lparr> accesses := accesses st @ [IdbPut] \<rparr>))"

text \<open>The catch block at the end of \<open>saveSession\<close>.\<close>

definition save_failed :: "platform \<Rightarrow> storage \<Rightarrow> session \<Rightarrow> storage_error \<Rightarrow> save_result \<times> storage" where
  "save_failed env st session error =
     (if error = QuotaExceededError
      then (case setItem env st USE_INDEXEDDB_KEY (js ''true'') of
              (Some e, st') \<Rightarrow> (Threw e, st')
            | (None, st') \<Rightarrow> saveSessionToIndexedDB env st' session)
      else (Returned False, st))"

definition saveSession :: "platform \<Rightarrow> storage \<Rightarrow> session \<Rightarrow> save_result \<times> storage" where
  "saveSession env st session =
     (case getItem st USE_INDEXEDDB_KEY of
        (flag, st1) \<Rightarrow>
          if flag = Some (js ''true'') then saveSessionToIndexedDB env st1 session
          else
            (case setItem env st1 testKey (js ''test'') of
               (Some e, st2) \<Rightarrow>
                 (case setItem env st2 USE_INDEXEDDB_KEY (js ''true'') of
                    (Some e', st3) \<Rightarrow> (Threw e', st3)
                  | (None, st3) \<Rightarrow> saveSessionToIndexedDB env st3 session)
             | (None, st2) \<Rightarrow>
                 let st3 = removeItem st2 testKey;
                     serialized = stringify env (make_data session (now env))
                 in if utf8_length serialized > 2 * (1024 * 1024)
                    then (case setItem env st3 USE_INDEXEDDB_KEY (js ''true'') of
                            (Some e, st4) \<Rightarrow> save_failed env st4 session e
                          | (None, st4) \<Rightarrow> saveSessionToIndexedDB env st4 session)
                    else (case setItem env st3 STORAGE_KEY serialized of
                            (Some e, st4) \<Rightarrow> save_failed env st4 session e
                          | (None, st4) \<Rightarrow> (Returned True, st4))))"

datatype loaded = FromLocalStorage stored_data | FromIndexedDB session nat | NoSession

definition loadSessionFromIndexedDB :: "storage \<Rightarrow> loaded \<times> storage" where
  "loadSessionFromIndexedDB st =
     (let st' = st\<lparr> accesses := accesses st @ [IdbGet] \<rparr>
      in if idb_available st
         then (case idb_record st of
                 Some (session, t) \<Rightarrow> (FromIndexedDB session t, st')
               | None \<Rightarrow> (NoSession, st'))
         else (NoSession, st'))"

definition loadSession :: "platform \<Rightarrow> storage \<Rightarrow> loaded \<times> storage" where
  "loadSession env st =
     (case getItem st USE_INDEXEDDB_KEY of
        (flag, st1) \<Rightarrow>
          if flag = Some (js ''true'') then loadSessionFromIndexedDB st1
          else
            (case getItem st1 STORAGE_KEY of
               (None, st2) \<Rightarrow> loadSessionFromIndexedDB st2
             | (Some d, st2) \<Rightarrow>
                 if d = [] then loadSessionFromIndexedDB st2
                 else (case parse env d of
                         Parsed v \<Rightarrow> (FromLocalStorage v, st2)
                       | SyntaxError \<Rightarrow> loadSessionFromIndexedDB st2)))"

section \<open>Playback and reading modes (App.svelte)\<close>

text \<open>
  The component's variables are the fields of one record. Timers are explicit: a
  pending timer holds its identifier, what it will call and its delay in milliseconds.
  \<open>saveSession\<close> is taken to return; the sessions handed to it are recorded in order.
\<close>

datatype callback = ShowNextWord | FadeIn | ResumeAfterPause | ResumeAfterImage | AutoSave

record timer =
  timer_id :: nat
  timer_callback :: callback
  timer_delay :: jsnum

record app =
  text' :: jsstring
  words :: "jsstring list"
  currentWordIndex :: int
  isPlaying :: bool
  isPaused :: bool
  showSettings :: bool
  showTextInput :: bool
  progress :: jsnum
  readingMode :: reading_mode
  contentStructure :: "content_structure option"
  currentChapterIndex :: int
  readerScrollPosition :: rat
  readerAutoScroll :: bool
  readerScrollIntervalId :: "nat option"
  highlightWordIndex :: "int option"
  settings :: settings
  wordOpacity :: rat
  intervalId :: "nat option"
  fadeTimeoutId :: "nat option"
  autoSaveIntervalId :: "nat option"
  currentImage :: "image option"
  isShowingImage :: bool
  timers :: "timer list"
  nextTimerId :: nat
  saveRequests :: "session list"

text \<open>\<open>(i / n) * 100\<close> for a number \<open>i\<close> and a length \<open>n\<close>.\<close>

definition percent :: "int \<Rightarrow> nat \<Rightarrow> jsnum" where
  "percent i n =
     (if n = 0 then (if i = 0 then NaN else if i > 0 then Infinity else MinusInfinity)
      else Finite (of_int i / of_nat n * 100))"

text \<open>\<open>setTimeout\<close> and \<open>setInterval\<close> give a fresh identifier; \<open>clearTimeout\<close> and
  \<open>clearInterval\<close> drop the timer of that identifier.\<close>

definition setTimeout :: "callback \<Rightarrow> jsnum \<Rightarrow> app \<Rightarrow> nat \<times> app" where
  "setTimeout cb delay s =
     (nextTimerId s,
      s\<lparr> timers := timers s @ [\<lparr> timer_id = nextTimerId s, timer_callback = cb, timer_delay = delay \<rparr>],
          nextTimerId := nextTimerId s + 1 \<rparr>)"

definition clearTimeout :: "nat \<Rightarrow> app \<Rightarrow> app" where
  "clearTimeout ident s = s\<lparr> timers := filter (\<lambda>t. timer_id t \<noteq> ident) (timers s) \<rparr>"

definition saveCurrentSession :: "app \<Rightarrow> app" where
  "saveCurrentSession s =
     (if length (words s) = 0 then s
      else s\<lparr> saveRequests := saveRequests s @
                 [\<lparr> session_text = text' s,
                    session_currentWordIndex = currentWordIndex s,
                    session_totalWords = int (length (words s)),
                    session_readingMode = readingMode s,
                    session_currentChapterIndex = currentChapterIndex s,
                    session_readerScrollPosition = readerScrollPosition s,
                    session_contentStructure = contentStructure s,
                    session_settings = settings s \<rparr>] \<rparr>)"

definition stopAutoSave :: "app \<Rightarrow> app" where
  "stopAutoSave s =
     (case autoSaveIntervalId s of
        None \<Rightarrow> s
      | Some ident \<Rightarrow> (clearTimeout ident s)\<lparr> autoSaveIntervalId := None \<rparr>)"

definition startAutoSave :: "app \<Rightarrow> app" where
  "startAutoSave s =
     (case setTimeout AutoSave (Finite 10000) (saveCurrentSession (stopAutoSave s)) of
        (ident, s') \<Rightarrow> s'\<lparr> autoSaveIntervalId := Some ident \<rparr>)"

text \<open>The component's \<open>getWordDelay\<close>: the utility with the current settings.\<close>

definition app_getWordDelay :: "app \<Rightarrow> jsstring \<Rightarrow> jsnum" where
  "app_getWordDelay s word =
     getWordDelay word (wordsPerMinute (settings s)) (pauseOnPunctuation (settings s))
       (punctuationPauseMultiplier (settings s)) (wordLengthWPMMultiplier (settings s))
       (lineBreakPauseMultiplier (settings s))"

definition scheduleNextWord :: "app \<Rightarrow> app" where
  "scheduleNextWord s =
     (if \<not> isPlaying s \<or> currentWordIndex s \<ge> int (length (words s)) then s
      else
        let word = (case at_index (words s) (currentWordIndex s - 1) of
                      None \<Rightarrow> [] | Some w \<Rightarrow> w)
        in (case setTimeout ShowNextWord (app_getWordDelay s word) s of
              (ident, s') \<Rightarrow> s'\<lparr> intervalId := Some ident \<rparr>))"

text \<open>\<open>if (intervalId) { clearTimeout(intervalId); intervalId = null; }\<close>, in \<open>pause\<close>
  and \<open>stop\<close>. Timer identifiers are positive, so an identifier is truthy.\<close>

definition clear_step_timer :: "app \<Rightarrow> app" where
  "clear_step_timer s =
     (case intervalId s of
        None \<Rightarrow> s
      | Some ident \<Rightarrow> (clearTimeout ident s)\<lparr> intervalId := None \<rparr>)"

definition pause :: "app \<Rightarrow> app" where
  "pause s =
     saveCurrentSession (stopAutoSave (clear_step_timer (s\<lparr> isPlaying := False, isPaused := True \<rparr>)))"

definition stop :: "app \<Rightarrow> app" where
  "stop s =
     saveCurrentSession (stopAutoSave (clear_step_timer
       (s\<lparr> isPlaying := False, isPaused := False, wordOpacity := 1 \<rparr>)))"

definition showImage :: "image \<Rightarrow> app \<Rightarrow> app" where
  "showImage image' s =
     (if unavailable image' then s
      else
        let s1 = s\<lparr> currentImage := Some image', isShowingImage := True, isPaused := True \<rparr>
        in snd (setTimeout ResumeAfterImage (Finite (imageDurationSeconds (settings s) * 1000)) s1))"

definition showNextWord :: "app \<Rightarrow> app" where
  "showNextWord s =
     (if currentWordIndex s \<ge> int (length (words s)) then stop s
      else
        (case (if showImagesInRSVP (settings s)
               then (case contentStructure s of
                       None \<Rightarrow> None
                     | Some cs \<Rightarrow>
                         find (\<lambda>img. wordPosition img = currentWordIndex s)
                              (content_structure.images cs))
               else None) of
           Some imageAtPosition \<Rightarrow> showImage imageAtPosition s
         | None \<Rightarrow>
             if shouldPauseAtWord (currentWordIndex s) (pauseAfterWords (settings s))
             then snd (setTimeout ResumeAfterPause (Finite (pauseDuration (settings s)))
                         (s\<lparr> isPaused := True \<rparr>))
             else
               let s1 = (if fadeEnabled (settings s)
                         then (case setTimeout FadeIn (Finite 10) (s\<lparr> wordOpacity := 0 \<rparr>) of
                                 (ident, s') \<Rightarrow> s'\<lparr> fadeTimeoutId := Some ident \<rparr>)
                         else s);
                   s2 = s1\<lparr> progress := percent (currentWordIndex s1 + 1) (length (words s1)),
                            currentWordIndex := currentWordIndex s1 + 1 \<rparr>;
                   s3 = (if readingMode s2 = Reader \<and> contentStructure s2 \<noteq> None
                         then s2\<lparr> highlightWordIndex := Some (currentWordIndex s2) \<rparr>
                         else s2)
               in scheduleNextWord s3))"

text \<open>The component's \<open>parseText\<close>, and \<open>start\<close>.\<close>

definition app_parseText :: "app \<Rightarrow> app" where
  "app_parseText s = s\<lparr> words := parseText (text' s), currentWordIndex := 0, progress := Finite 0 \<rparr>"

definition start :: "app \<Rightarrow> app" where
  "start s =
     (let s1 = (if length (words s) = 0 then app_parseText s else s)
      in if length (words s1) = 0 then s1
         else startAutoSave (showNextWord
                (s1\<lparr> isPlaying := True, isPaused := False,
                     showSettings := False, showTextInput := False \<rparr>)))"

definition stopReaderAutoScroll :: "app \<Rightarrow> app" where
  "stopReaderAutoScroll s =
     (let s1 = s\<lparr> readerAutoScroll := False \<rparr>;
          s2 = (case readerScrollIntervalId s1 of
                  None \<Rightarrow> s1
                | Some ident \<Rightarrow> (clearTimeout ident s1)\<lparr> readerScrollIntervalId := None \<rparr>)
      in saveCurrentSession (stopAutoSave s2))"

text \<open>
  \<open>switchReadingMode\<close>. Its log line reads \<open>chapter.title\<close>, which throws a TypeError
  when \<open>chapters[currentChapterIndex]\<close> is undefined; the state is then the one
  reached at the throw.
\<close>

datatype outcome = Completed | ThrewTypeError

text \<open>The end of \<open>switchReadingMode\<close>: \<open>readingMode = newMode\<close>, and playback starts when
  the new mode is the word-at-a-time view.\<close>

definition finish_switch :: "reading_mode \<Rightarrow> app \<Rightarrow> app" where
  "finish_switch newMode s =
     (let s1 = s\<lparr> readingMode := newMode \<rparr>
      in if newMode = Rsvp then start s1 else s1)"

text \<open>The two lines under ``Pause any playback''.\<close>

definition pause_any_playback :: "app \<Rightarrow> app" where
  "pause_any_playback s =
     (let s1 = (if isPlaying s then pause s else s)
      in if readerAutoScroll s1 then stopReaderAutoScroll s1 else s1)"

definition switchReadingMode :: "reading_mode \<Rightarrow> app \<Rightarrow> outcome \<times> app" where
  "switchReadingMode newMode s =
     (if newMode = readingMode s then (Completed, s)
      else if contentStructure s = None \<and> newMode = Reader then (Completed, s)
      else
        let s2 = pause_any_playback s
        in if readingMode s2 = Rsvp \<and> newMode = Reader
           then
             let s3 = s2\<lparr> currentChapterIndex :=
                           int (getChapterAtWordIndex (contentStructure s2) (currentWordIndex s2)) \<rparr>;
                 chapter = (case contentStructure s3 of
                              None \<Rightarrow> None
                            | Some cs \<Rightarrow> at_index (chapters cs) (currentChapterIndex s3));
                 s4 = s3\<lparr> readerScrollPosition :=
                             getScrollPercentageInChapter chapter (currentWordIndex s3),
                          highlightWordIndex := Some (currentWordIndex s3) \<rparr>
             in (case chapter of
                   None \<Rightarrow> (ThrewTypeError, s4)
                 | Some ch \<Rightarrow> (Completed, finish_switch newMode s4))
           else if readingMode s2 = Reader \<and> newMode = Rsvp
           then (Completed,
                 finish_switch newMode
                   (s2\<lparr> progress := percent (currentWordIndex s2) (length (words s2)),
                        highlightWordIndex := None \<rparr>))
           else (Completed, finish_switch newMode s2))"

definition handleReaderScroll :: "rat \<Rightarrow> app \<Rightarrow> app" where
  "handleReaderScroll percentage s = s\<lparr> readerScrollPosition := percentage \<rparr>"

section \<open>Notions used in the statements\<close>

text \<open>The order \<open><\<close> of JavaScript numbers; a comparison with \<open>NaN\<close> is false.\<close>

fun js_less :: "jsnum \<Rightarrow> jsnum \<Rightarrow> bool" where
  "js_less (Finite a) (Finite b) = (a < b)"
| "js_less (Finite a) Infinity = True"
| "js_less MinusInfinity (Finite b) = True"
| "js_less MinusInfinity Infinity = True"
| "js_less _ _ = False"

text \<open>
  What \<open>getWordDelay\<close> looks at in a token besides its length: whether it starts with
  the marker, whether it ends in one of the marks \<open>. ! ? ; :\<close>, and whether it ends in a
  comma.
\<close>

definition token_class :: "jsstring \<Rightarrow> bool \<times> bool \<times> bool" where
  "token_class w =
     (hd w = marker,
      ends_with_any (strip_marker w) (js ''.!?;:''),
      ends_with_any (strip_marker w) (js '',''))"

text \<open>The integers that a double holds exactly, \<open>Number.isSafeInteger\<close>.\<close>

definition safe_integer :: "int \<Rightarrow> bool" where
  "safe_integer k = (\<bar>k\<bar> < 2 ^ 53)"

text \<open>A document of three chapters of 100, 150 and 50 words.\<close>

definition blank_chapter :: raw_chapter where
  "blank_chapter = \<lparr> title = Title [], plainText = [], images = [] \<rparr>"

definition three_chapters :: content_structure where
  "three_chapters =
     \<lparr> chapters = [with_boundaries blank_chapter 0 100 100,
                     with_boundaries blank_chapter 100 250 150,
                     with_boundaries blank_chapter 250 300 50],
       toc = [], hasStructure = True, images = [] \<rparr>"

text \<open>The words of one line: \<open>line.trim().split(/\s+/).filter(w => w.length > 0)\<close>.\<close>

definition line_words :: "jsstring \<Rightarrow> jsstring list" where
  "line_words raw = filter (\<lambda>w. length w > 0) (split_spaces (trim raw))"

text \<open>A word stream whose first word carries the marker.\<close>

fun mark_first :: "jsstring list \<Rightarrow> jsstring list" where
  "mark_first [] = []"
| "mark_first (w # ws) = (marker # w) # ws"



text \<open>The outline of a PDF of two pages with one entry for each page.\<close>

definition two_page_outline :: "outline_item list" where
  "two_page_outline =
     [\<lparr> item_title = Some (js ''One''), pageIndex = Some 0 \<rparr>,
      \<lparr> item_title = Some (js ''Two''), pageIndex = Some 1 \<rparr>]"

text \<open>
  Stores and browsers for concrete evaluations: an empty store with a working
  database; a browser whose \<open>localStorage\<close> refuses every write with a quota error (it
  is full, or has no quota at all, as in some private browsing modes); a browser whose
  \<open>localStorage\<close> refuses every value of more than 100 characters; a browser whose
  \<open>localStorage\<close> has room for the probe only; and a session whose text has 200
  characters. The serialisation stands in for \<open>JSON.stringify\<close>.
\<close>

definition empty_storage :: storage where
  "empty_storage =
     \<lparr> local_items = Map.empty, idb_record = None, idb_available = True, accesses = [] \<rparr>"

definition refusing_platform :: platform where
  "refusing_platform =
     \<lparr> setItem_throws = (\<lambda>items key v. Some QuotaExceededError),
       stringify = data_text, parse = (\<lambda>s. SyntaxError), now = 0 \<rparr>"

definition small_platform :: platform where
  "small_platform =
     \<lparr> setItem_throws =
         (\<lambda>items key v. if length v > 100 then Some QuotaExceededError else None),
       stringify = data_text, parse = (\<lambda>s. SyntaxError), now = 0 \<rparr>"

definition probe_only_platform :: platform where
  "probe_only_platform =
     \<lparr> setItem_throws =
         (\<lambda>items key v. if key = testKey then None else Some QuotaExceededError),
       stringify = data_text, parse = (\<lambda>s. SyntaxError), now = 0 \<rparr>"

text \<open>The settings with which the component starts.\<close>

definition default_settings :: settings where
  "default_settings =
     \<lparr> wordsPerMinute = 300, fadeEnabled = True, fadeDuration = 150,
       pauseOnPunctuation = True, punctuationPauseMultiplier = 2,
       lineBreakPauseMultiplier = 3, wordLengthWPMMultiplier = 50, pauseAfterWords = 0,
       pauseDuration = 500, frameWordCount = 1, showImagesInRSVP = True,
       imageDurationSeconds = 3, chapterProgressDisplayMode = TimerDisplay \<rparr>"

definition session_200 :: session where
  "session_200 =
     \<lparr> session_text = replicate 200 0x61, session_currentWordIndex = 0,
       session_totalWords = 1, session_readingMode = Rsvp, session_currentChapterIndex = 0,
       session_readerScrollPosition = 0, session_contentStructure = None,
       session_settings = default_settings \<rparr>"

text \<open>The image marker that \<open>showNextWord\<close> finds at the current position, if images are
  shown and there is one.\<close>

definition image_at_position :: "app \<Rightarrow> image option" where
  "image_at_position s =
     (if showImagesInRSVP (settings s)
      then (case contentStructure s of
              None \<Rightarrow> None
            | Some cs \<Rightarrow> find (\<lambda>img. wordPosition img = currentWordIndex s)
                          (content_structure.images cs))
      else None)"

text \<open>The forward step at the current position shows a word: a word is left, no image
  marker is found there, and the position is not a periodic pause.\<close>

definition first_step_advances :: "app \<Rightarrow> bool" where
  "first_step_advances s =
     (currentWordIndex s < int (length (words s)) \<and> image_at_position s = None
      \<and> \<not> shouldPauseAtWord (currentWordIndex s) (pauseAfterWords (settings s)))"

text \<open>The pending step timer fires: the browser drops it and calls \<open>showNextWord\<close>.
  \<open>step_pending\<close>: a step timer is pending.\<close>

definition fire_step :: "app \<Rightarrow> app" where
  "fire_step s =
     (case find (\<lambda>t. timer_callback t = ShowNextWord) (timers s) of
        None \<Rightarrow> s
      | Some t \<Rightarrow> showNextWord (clearTimeout (timer_id t) s))"

definition step_pending :: "app \<Rightarrow> bool" where
  "step_pending s = (find (\<lambda>t. timer_callback t = ShowNextWord) (timers s) \<noteq> None)"

text \<open>
  The component with a document of three words in one chapter, at the start and not
  playing; and the same with the image marker of an EPUB after the first word. The
  EPUB parser marks every image \<open>unavailable\<close>.
\<close>

definition one_chapter :: content_structure where
  "one_chapter =
     \<lparr> chapters = [with_boundaries \<lparr> title = Title (js ''One''), plainText = js ''a b c'', images = [] \<rparr> 0 3 3],
       toc = [], hasStructure = True, images = [] \<rparr>"

definition initial_app :: app where
  "initial_app =
     \<lparr> text' = js ''a b c'', words = [js ''a'', js ''b'', js ''c''], currentWordIndex = 0,
       isPlaying = False, isPaused = False, showSettings = False, showTextInput = False,
       progress = Finite 0, readingMode = Rsvp, contentStructure = Some one_chapter,
       currentChapterIndex = 0, readerScrollPosition = 0, readerAutoScroll = False,
       readerScrollIntervalId = None, highlightWordIndex = None, settings = default_settings,
       wordOpacity = 1, intervalId = None, fadeTimeoutId = None, autoSaveIntervalId = None,
       currentImage = None, isShowingImage = False, timers = [], nextTimerId = 1,
       saveRequests = [] \<rparr>"

definition epub_image :: image where
  "epub_image = \<lparr> src = js ''cover.png'', alt = js ''Image'', wordPosition = 1, unavailable = True \<rparr>"

definition epub_app :: app where
  "epub_app = initial_app\<lparr> contentStructure := Some (one_chapter\<lparr> images := [epub_image] \<rparr>) \<rparr>"

text \<open>What the functions around playback leave alone.\<close>

definition same_document :: "app \<Rightarrow> app \<Rightarrow> bool" where
  "same_document s t =
     (currentWordIndex t = currentWordIndex s \<and> words t = words s \<and> settings t = settings s
      \<and> contentStructure t = contentStructure s \<and> text' t = text' s
      \<and> readingMode t = readingMode s)"

text \<open>A run of scroll events in the paginated view, with their percentages.\<close>

definition scroll_all :: "rat list \<Rightarrow> app \<Rightarrow> app" where
  "scroll_all ps s = foldl (\<lambda>s p. handleReaderScroll p s) s ps"

section \<open>Position mapping: properties\<close>

lemma with_boundaries_sel [simp]:
  "startWordIndex (with_boundaries c s e n) = s"
  "endWordIndex (with_boundaries c s e n) = e"
  "wordCount (with_boundaries c s e n) = n"
  "plainText (with_boundaries c s e n) = plainText c"
  "title (with_boundaries c s e n) = title c"
  "raw_chapter.images (with_boundaries c s e n) = raw_chapter.images c"
  by (simp_all add: with_boundaries_def raw_chapter.defs chapter_wb.defs)

text \<open>
  Claim C6, as the code has it. In a document whose three chapters cover \<open>[0,100)\<close>,
  \<open>[100,250)\<close> and \<open>[250,300)\<close>, word 225 lies in the second chapter:
  \<open>getChapterAtWordIndex\<close> returns index 1 (0-based), and the scroll percentage of word
  225 in that chapter is \<open>(125 / 150) * 100 = 250/3\<close>, about 83.3. In the third
  chapter, of index 2, the same word would be at \<open>-50\<close> percent.
\<close>

theorem getChapterAtWordIndex_three_chapters:
  "getChapterAtWordIndex
     (Some \<lparr> chapters = [with_boundaries r1 0 100 100, with_boundaries r2 100 250 150,
                          with_boundaries r3 250 300 50],
            toc = t, hasStructure = h, images = imgs \<rparr>) 225 = 1
   \<and> getScrollPercentageInChapter (Some (with_boundaries r2 100 250 150)) 225 = 250 / 3
   \<and> getScrollPercentageInChapter (Some (with_boundaries r3 250 300 50)) 225 = - 50"
  by (simp add: getChapterAtWordIndex_def getScrollPercentageInChapter_def)

text \<open>The scenario as the specification words it (chapter index 2, 50 percent) does not
  hold of the code.\<close>

theorem getChapterAtWordIndex_three_chapters_counterexample:
  "\<not> (getChapterAtWordIndex (Some three_chapters) 225 = 2
      \<and> getScrollPercentageInChapter
           (at_index (chapters three_chapters)
              (int (getChapterAtWordIndex (Some three_chapters) 225))) 225 = 50)"
  by (simp add: getChapterAtWordIndex_def three_chapters_def)

section \<open>Double arithmetic: properties\<close>

lemma bit_length_bound: "n < 2 ^ k \<Longrightarrow> bit_length n \<le> k"
proof (induction n arbitrary: k rule: bit_length.induct)
  case (1 n)
  show ?case
  proof (cases "n = 0")
    case True
    then show ?thesis by (simp add: bit_length.simps [of 0])
  next
    case False
    then obtain j where k: "k = Suc j" using "1.prems" by (cases k) auto
    have "n div 2 < 2 ^ j" using "1.prems" k by auto
    then have "bit_length (n div 2) \<le> j" using "1.IH" False by simp
    then show ?thesis using False k by (simp add: bit_length.simps [of n])
  qed
qed

lemma ilog2_le_52:
  assumes "0 < a" "a < 2 ^ 53"
  shows "ilog2 a \<le> 52"
proof (cases "1 \<le> a")
  case True
  have "\<lfloor>a\<rfloor> < 2 ^ 53" using assms(2) by (simp add: floor_less_iff)
  then have "nat \<lfloor>a\<rfloor> < 2 ^ 53" using True by (simp add: nat_less_iff)
  then have "bit_length (nat \<lfloor>a\<rfloor>) \<le> 53" by (rule bit_length_bound)
  then show ?thesis using True by (simp add: ilog2_def)
next
  case False
  then show ?thesis by (simp add: ilog2_def Let_def)
qed

lemma round_half_even_of_int [simp]: "round_half_even (of_int k) = k"
  by (simp add: round_half_even_def)

lemma round_half_even_nonneg: "0 \<le> m \<Longrightarrow> 0 \<le> round_half_even m"
  by (simp add: round_half_even_def Let_def)

lemma round_half_even_le:
  assumes "m \<le> of_int k"
  shows "round_half_even m \<le> k"
proof (cases "m = of_int k")
  case True
  then show ?thesis by simp
next
  case False
  then have "m < of_int k" using assms by simp
  then have "\<lfloor>m\<rfloor> < k" by (simp add: floor_less_iff)
  then show ?thesis by (simp add: round_half_even_def Let_def)
qed

text \<open>Below \<open>2 ^ 53\<close> the quantum of a number is \<open>1 / 2 ^ j\<close> for some
  \<open>j\<close>.\<close>

lemma quantum_small:
  assumes "0 < a" "a < 2 ^ 53"
  shows "\<exists>j. pow2 (max (ilog2 a) (- 1022) - 52) = 1 / 2 ^ j"
proof -
  define e where "e = max (ilog2 a) (- 1022) - 52"
  have "e \<le> 0" using ilog2_le_52 [OF assms] by (simp add: e_def)
  then have "pow2 e = 1 / 2 ^ nat (- e)"
    by (cases "e = 0") (simp_all add: pow2_def)
  then show ?thesis unfolding e_def by blast
qed

text \<open>An integer below \<open>2 ^ 53\<close> in magnitude is a double.\<close>

lemma round_double_of_int:
  assumes "\<bar>k\<bar> < 2 ^ 53"
  shows "round_double (of_int k) = of_int k"
proof (cases "k = 0")
  case True
  then show ?thesis by (simp add: round_double_def)
next
  case False
  define a :: rat where "a = \<bar>of_int k\<bar>"
  have a: "0 < a" "a < 2 ^ 53" "a = of_int \<bar>k\<bar>"
    using False assms by (simp_all add: a_def)
  obtain j where j: "pow2 (max (ilog2 a) (- 1022) - 52) = 1 / 2 ^ j"
    using quantum_small [OF a(1,2)] by blast
  have "a / (1 / 2 ^ j) = of_int (\<bar>k\<bar> * 2 ^ j)" using a(3) by simp
  then have "round_half_even (a / (1 / 2 ^ j)) = \<bar>k\<bar> * 2 ^ j"
    by (simp only: round_half_even_of_int)
  then have "round_double (of_int k) = sgn (of_int k) * of_int (\<bar>k\<bar> * 2 ^ j) * (1 / 2 ^ j)"
    using False j by (simp add: round_double_def Let_def a_def)
  also have "\<dots> = sgn (of_int k) * \<bar>of_int k\<bar>" by simp
  also have "\<dots> = of_int k" by (simp add: sgn_mult_abs)
  finally show ?thesis .
qed


lemma fl_of_int:
  assumes "safe_integer k"
  shows "fl (of_int k) = Finite (of_int k)"
proof -
  have k: "\<bar>k\<bar> < 2 ^ 53" using assms by (simp add: safe_integer_def)
  then have "(of_int \<bar>k\<bar> :: rat) < of_int (2 ^ 53)"
    by (simp only: of_int_less_iff)
  then have "\<bar>of_int k :: rat\<bar> < 2 ^ 53" by simp
  moreover have "(2::rat) ^ 53 < 2 ^ 1024" by simp
  ultimately have "(of_int k :: rat) < 2 ^ 1024" "- (2 ^ 1024) < (of_int k :: rat)"
    by linarith+
  then show ?thesis
    using round_double_of_int [OF k] by (simp add: fl_def)
qed


lemma fl_0 [simp]: "fl 0 = Finite 0"
  by (simp add: fl_def round_double_def)

lemma fl_1 [simp]: "fl 1 = Finite 1"
  using fl_of_int [of 1] by (simp add: safe_integer_def)

lemma fl_finite:
  assumes "round_double x = y" "\<bar>y\<bar> < 2 ^ 1024"
  shows "fl x = Finite y"
  using assms by (simp add: fl_def abs_less_iff not_le)

lemma bit_length_spec:
  "0 < n \<Longrightarrow> 2 ^ (bit_length n - 1) \<le> n \<and> n < 2 ^ bit_length n"
proof (induction n rule: bit_length.induct)
  case (1 n)
  show ?case
  proof (cases "n div 2 = 0")
    case True
    then have "n = Suc 0" using "1.prems" by auto
    then show ?thesis
      by (simp add: bit_length.simps [of "Suc 0"] bit_length.simps [of 0])
  next
    case False
    then have ih: "2 ^ (bit_length (n div 2) - 1) \<le> n div 2" "n div 2 < 2 ^ bit_length (n div 2)"
      using "1.IH" "1.prems" by auto
    have pos: "0 < bit_length (n div 2)"
      using False by (simp add: bit_length.simps [of "n div 2"])
    have b: "bit_length n = Suc (bit_length (n div 2))"
      using "1.prems" by (simp add: bit_length.simps [of n])
    have "2 ^ (bit_length n - 1) = 2 * 2 ^ (bit_length (n div 2) - 1)"
      using pos by (simp add: b power_eq_if)
    also have "\<dots> \<le> 2 * (n div 2)" using ih(1) by simp
    also have "\<dots> \<le> n" by simp
    finally have lo: "2 ^ (bit_length n - 1) \<le> n" .
    have "n < 2 * (n div 2) + 2" by presburger
    also have "\<dots> \<le> 2 * 2 ^ bit_length (n div 2)" using ih(2) by simp
    finally have "n < 2 ^ bit_length n" by (simp add: b)
    then show ?thesis using lo by simp
  qed
qed

lemma bit_length_spec_rat:
  assumes "0 < n"
  shows "(2::rat) ^ (bit_length n - 1) \<le> of_nat n" "(of_nat n :: rat) + 1 \<le> 2 ^ bit_length n"
proof -
  have "(of_nat (2 ^ (bit_length n - 1)) :: rat) \<le> of_nat n"
    using bit_length_spec [OF assms] by (simp only: of_nat_le_iff)
  then show "(2::rat) ^ (bit_length n - 1) \<le> of_nat n" by simp
  have "Suc n \<le> 2 ^ bit_length n" using bit_length_spec [OF assms] by simp
  then have "(of_nat (Suc n) :: rat) \<le> of_nat (2 ^ bit_length n)"
    by (simp only: of_nat_le_iff)
  then show "(of_nat n :: rat) + 1 \<le> 2 ^ bit_length n" by simp
qed

lemma pow2_minus: "pow2 (- int k) = 1 / 2 ^ k"
  by (simp add: pow2_def)

text \<open>The exponent is the one of the binary representation.\<close>

lemma ilog2_spec:
  assumes "0 < a"
  shows "pow2 (ilog2 a) \<le> a \<and> a < pow2 (ilog2 a + 1)"
proof (cases "1 \<le> a")
  case True
  define n where "n = nat \<lfloor>a\<rfloor>"
  have "1 \<le> \<lfloor>a\<rfloor>" using True by (simp add: le_floor_iff)
  then have n0: "0 < n" and nf: "int n = \<lfloor>a\<rfloor>" by (simp_all add: n_def)
  have "(of_int (int n) :: rat) \<le> a" "a < of_int (int n) + 1"
    unfolding nf using floor_correct [of a] by simp_all
  then have n: "of_nat n \<le> a" "a < of_nat n + 1" by simp_all
  have e: "ilog2 a = int (bit_length n) - 1" using True by (simp add: ilog2_def n_def)
  have bl: "0 < bit_length n" using n0 by (simp add: bit_length.simps [of n])
  then have "nat (int (bit_length n) - 1) = bit_length n - 1" by simp
  then have p: "pow2 (ilog2 a) = 2 ^ (bit_length n - 1)" "pow2 (ilog2 a + 1) = 2 ^ bit_length n"
    using bl by (simp_all add: e pow2_def)
  show ?thesis using bit_length_spec_rat [OF n0] n p by linarith
next
  case False
  define t where "t = nat \<lfloor>1 / a\<rfloor>"
  define k where "k = bit_length t - 1"
  have a1: "a < 1" using False by simp
  then have "1 < 1 / a" using assms by simp
  then have "1 \<le> \<lfloor>1 / a\<rfloor>" by (simp add: le_floor_iff)
  then have t0: "0 < t" and tf: "int t = \<lfloor>1 / a\<rfloor>"
    unfolding t_def by linarith+
  have "(of_int (int t) :: rat) \<le> 1 / a" "1 / a < of_int (int t) + 1"
    unfolding tf using floor_correct [of "1 / a"] by simp_all
  then have t: "of_nat t \<le> 1 / a" "1 / a < of_nat t + 1" by simp_all
  have bl: "0 < bit_length t" using t0 by (simp add: bit_length.simps [of t])
  then have sk: "bit_length t = Suc k" by (simp add: k_def)
  have "(2::rat) ^ (Suc k - 1) \<le> of_nat t" "(of_nat t :: rat) + 1 \<le> 2 ^ Suc k"
    using bit_length_spec_rat [OF t0] unfolding sk by blast+
  then have "(2::rat) ^ k \<le> of_nat t" "(of_nat t :: rat) + 1 \<le> 2 ^ Suc k"
    by (simp_all only: diff_Suc_1)
  then have r: "2 ^ k \<le> 1 / a" "1 / a < 2 ^ Suc k"
    using t by linarith+
  have u: "a * 2 ^ k \<le> 1" using r(1) assms by (simp add: field_simps)
  have l: "1 < a * 2 ^ Suc k" using r(2) assms by (simp add: field_simps)
  have ik: "int (bit_length t) - 1 = int k" by (simp add: sk)
  have pk: "pow2 (int k) = 2 ^ k" by (simp add: pow2_def)
  have il: "ilog2 a = (if a * 2 ^ k = 1 then - int k else - int k - 1)"
    using False by (simp add: ilog2_def Let_def flip: t_def) (simp add: sk pk)
  have m1: "pow2 (- int k) = 1 / 2 ^ k" by (rule pow2_minus)
  have "- int k - 1 = - int (Suc k)" by simp
  then have m2: "pow2 (- int k - 1) = 1 / 2 ^ Suc k" by (simp only: pow2_minus)
  show ?thesis
  proof (cases "a * 2 ^ k = 1")
    case True
    then have e: "ilog2 a = - int k" by (simp add: il)
    obtain j where j: "k = Suc j" using True a1 by (cases k) auto
    have av: "a = 1 / 2 ^ k" using True by (simp add: field_simps)
    have "- int k + 1 = - int j" by (simp add: j)
    moreover have "pow2 (- int j) = 1 / 2 ^ j" by (rule pow2_minus)
    ultimately have "pow2 (- int k + 1) = 1 / 2 ^ j" by simp
    moreover have "(1::rat) / 2 ^ k < 1 / 2 ^ j" by (simp add: j field_simps)
    ultimately show ?thesis unfolding e using av m1 by simp
  next
    case F: False
    then have e: "ilog2 a = - int k - 1" by (simp add: il)
    have "- int k - 1 + 1 = - int k" by simp
    then have "pow2 (- int k - 1 + 1) = 1 / 2 ^ k" using m1 by simp
    moreover have "1 / 2 ^ Suc k < a" using l by (simp add: field_simps)
    moreover have "a < 1 / 2 ^ k" using u F by (simp add: field_simps)
    ultimately show ?thesis unfolding e using m2 by simp
  qed
qed

lemma pow2_powi: "pow2 e = 2 powi e"
  by (simp add: pow2_def power_int_def power_one_over)

lemma pow2_pos: "0 < pow2 e"
  by (simp add: pow2_def)

lemma round_half_even_error: "\<bar>of_int (round_half_even m) - m\<bar> \<le> 1 / 2"
  using floor_correct [of m] by (auto simp: round_half_even_def Let_def abs_le_iff)

text \<open>
  The result of the rounding is a multiple of the quantum of its argument, by a
  significand of at most 53 bits, and is within half a quantum of the argument.
\<close>

lemma round_double_spec:
  assumes "x \<noteq> 0"
  defines "q \<equiv> pow2 (max (ilog2 \<bar>x\<bar>) (- 1022) - 52)"
  shows "\<exists>n. \<bar>n\<bar> \<le> 2 ^ 53 \<and> round_double x = of_int n * q"
    and "\<bar>round_double x - x\<bar> \<le> q / 2"
proof -
  define N where "N = round_half_even (\<bar>x\<bar> / q)"
  have q0: "0 < q" by (simp add: q_def pow2_pos)
  have r: "round_double x = sgn x * of_int N * q"
    using assms(1) by (simp add: round_double_def Let_def N_def q_def)
  have a0: "0 < \<bar>x\<bar>" using assms(1) by simp
  have "\<bar>x\<bar> < pow2 (ilog2 \<bar>x\<bar> + 1)" using ilog2_spec [OF a0] by simp
  also have "\<dots> = 2 powi (ilog2 \<bar>x\<bar> - 52) * 2 ^ 53"
    by (simp add: pow2_powi power_int_add power_int_diff)
  also have "\<dots> \<le> 2 powi (max (ilog2 \<bar>x\<bar>) (- 1022) - 52) * 2 ^ 53"
    by (simp add: power_int_increasing)
  finally have "\<bar>x\<bar> / q < 2 ^ 53"
    using q0 by (simp add: q_def pow2_powi divide_less_eq mult.commute)
  then have "\<bar>x\<bar> / q \<le> of_int (2 ^ 53)" by simp
  then have N1: "N \<le> 2 ^ 53" unfolding N_def by (rule round_half_even_le)
  have N0: "0 \<le> N" unfolding N_def
    using q0 by (intro round_half_even_nonneg) simp
  have sx: "sgn x = 1 \<or> sgn x = - 1" using assms(1) by (auto simp: sgn_if)
  then have "round_double x = of_int N * q \<or> round_double x = of_int (- N) * q"
    unfolding r by auto
  then show "\<exists>n. \<bar>n\<bar> \<le> 2 ^ 53 \<and> round_double x = of_int n * q"
  proof (elim disjE)
    assume "round_double x = of_int N * q"
    then show ?thesis using N0 N1 by (intro exI [of _ N]) simp
  next
    assume "round_double x = of_int (- N) * q"
    then show ?thesis using N0 N1 by (intro exI [of _ "- N"]) simp
  qed
  have "round_double x - x = sgn x * (of_int N * q - \<bar>x\<bar>)"
    unfolding r by (simp add: algebra_simps abs_mult_sgn)
  then have "\<bar>round_double x - x\<bar> = \<bar>of_int N * q - \<bar>x\<bar>\<bar>"
    using sx by (auto simp: abs_mult)
  also have "\<dots> = \<bar>of_int N - \<bar>x\<bar> / q\<bar> * q"
  proof -
    have "of_int N * q - \<bar>x\<bar> = (of_int N - \<bar>x\<bar> / q) * q"
      using q0 by (simp add: left_diff_distrib)
    then have "\<bar>of_int N * q - \<bar>x\<bar>\<bar> = \<bar>of_int N - \<bar>x\<bar> / q\<bar> * \<bar>q\<bar>"
      by (simp only: abs_mult)
    then show ?thesis using q0 by simp
  qed
  also have "\<dots> \<le> 1 / 2 * q"
    using round_half_even_error [of "\<bar>x\<bar> / q"] q0 unfolding N_def
    by (intro mult_right_mono) simp_all
  finally show "\<bar>round_double x - x\<bar> \<le> q / 2" by simp
qed









section \<open>Position from a scroll percentage: properties\<close>

text \<open>The function, for a chapter whose width is a safe integer.\<close>

lemma getWordIndexFromScroll_safe:
  assumes "safe_integer (endWordIndex ch - startWordIndex ch)"
  shows "getWordIndexFromScroll (Some ch) (Finite p) =
           js_add (Finite (of_int (startWordIndex ch)))
             (js_floor (js_mul (Finite (of_int (endWordIndex ch - startWordIndex ch)))
                               (fl (p / 100))))"
  using fl_of_int [OF assms] by (simp add: getWordIndexFromScroll_def js_sub_def Let_def)






text \<open>The function step by step, for the evaluation at given numbers.\<close>

lemma getWordIndexFromScroll_steps:
  assumes "safe_integer (endWordIndex ch - startWordIndex ch)"
    and "fl (p / 100) = Finite q"
    and "fl (of_int (endWordIndex ch - startWordIndex ch) * q) = Finite t"
    and "\<lfloor>t\<rfloor> = f"
    and "safe_integer (startWordIndex ch + f)"
  shows "getWordIndexFromScroll (Some ch) (Finite p) = Finite (of_int (startWordIndex ch + f))"
  using fl_of_int [OF assms(5)] assms(2,3,4)
  by (simp add: getWordIndexFromScroll_safe [OF assms(1)])




text \<open>
  The rounding of the product shows in the result, and no percentage is clamped. In a
  chapter that covers \<open>[0,100)\<close>, 29 percent gives word 28: the double nearest to
  \<open>29 / 100\<close> is below it, and 100 times that double rounds to \<open>29 - 2 ^ (- 48)\<close>,
  which JavaScript prints as \<open>28.999999999999996\<close>. In the same chapter 150 percent
  gives 150 and -10 percent gives -10. In a chapter that covers \<open>[100,250)\<close>, the
  double that \<open>(25 / 150) * 100\<close> evaluates to, printed \<open>16.666666666666664\<close>, gives
  word 124, not the word 125 that is 25 words into the chapter. A percentage that is
  not a number gives a result that is not a number, and without a chapter the result
  is 0.
\<close>

theorem getWordIndexFromScroll_rounding:
  "fl (29 / 100) = Finite (5224175567749775 / 2 ^ 54)
   \<and> fl (100 * (5224175567749775 / 2 ^ 54)) = Finite (29 - 1 / 2 ^ 48)
   \<and> getWordIndexFromScroll (Some (with_boundaries blank_chapter 0 100 100))
           (Finite 29) = Finite 28
   \<and> getWordIndexFromScroll (Some (with_boundaries blank_chapter 0 100 100))
           (Finite 150) = Finite 150
   \<and> getWordIndexFromScroll (Some (with_boundaries blank_chapter 0 100 100)) (Finite (- 10))
        = Finite (- 10)
   \<and> fl (25 / 150) = Finite (6004799503160661 / 2 ^ 55)
   \<and> fl (6004799503160661 / 2 ^ 55 * 100) = Finite (2345624805922133 / 2 ^ 47)
   \<and> getWordIndexFromScroll (Some (with_boundaries blank_chapter 100 250 150))
         (Finite (2345624805922133 / 2 ^ 47)) = Finite 124
   \<and> getWordIndexFromScroll (Some (with_boundaries blank_chapter 0 100 100)) NaN = NaN
   \<and> getWordIndexFromScroll None (Finite 50) = Finite 0"
proof -
  have "round_double (29 / 100) = 5224175567749775 / 2 ^ 54"
    "round_double (100 * (5224175567749775 / 2 ^ 54)) = 29 - 1 / 2 ^ 48"
    by code_simp+
  then have a: "fl (29 / 100) = Finite (5224175567749775 / 2 ^ 54)"
    "fl (100 * (5224175567749775 / 2 ^ 54)) = Finite (29 - 1 / 2 ^ 48)"
    by (simp_all add: fl_finite)
  have a': "\<lfloor>29 - 1 / 2 ^ 48 :: rat\<rfloor> = 28"
    by code_simp
  have "round_double (150 / 100) = 3 / 2" "round_double (100 * (3 / 2)) = 150"
    by code_simp+
  then have b: "fl (150 / 100) = Finite (3 / 2)" "fl (100 * (3 / 2)) = Finite 150"
    by (simp_all add: fl_finite)
  have "round_double (- 10 / 100) = - 3602879701896397 / 2 ^ 55"
    "round_double (100 * (- 3602879701896397 / 2 ^ 55)) = - 10"
    by code_simp+
  then have c: "fl (- 10 / 100) = Finite (- 3602879701896397 / 2 ^ 55)"
    "fl (100 * (- 3602879701896397 / 2 ^ 55)) = Finite (- 10)"
    by (simp_all add: fl_finite)
  have "round_double (25 / 150) = 6004799503160661 / 2 ^ 55"
    "round_double (6004799503160661 / 2 ^ 55 * 100) = 2345624805922133 / 2 ^ 47"
    "round_double (2345624805922133 / 2 ^ 47 / 100) = 1501199875790165 / 2 ^ 53"
    "round_double (150 * (1501199875790165 / 2 ^ 53)) = 3518437208883199 / 2 ^ 47"
    by code_simp+
  then have d: "fl (25 / 150) = Finite (6004799503160661 / 2 ^ 55)"
    "fl (6004799503160661 / 2 ^ 55 * 100) = Finite (2345624805922133 / 2 ^ 47)"
    "fl (2345624805922133 / 2 ^ 47 / 100) = Finite (1501199875790165 / 2 ^ 53)"
    "fl (150 * (1501199875790165 / 2 ^ 53)) = Finite (3518437208883199 / 2 ^ 47)"
    by (simp_all add: fl_finite)
  have d': "\<lfloor>3518437208883199 / 2 ^ 47 :: rat\<rfloor> = 24"
    by code_simp
  have "getWordIndexFromScroll (Some (with_boundaries blank_chapter 0 100 100))
          (Finite 29) = Finite 28"
    using a a' getWordIndexFromScroll_steps [of "with_boundaries blank_chapter 0 100 100" 29
        "5224175567749775 / 2 ^ 54" "29 - 1 / 2 ^ 48" 28]
    by (simp add: safe_integer_def)
  moreover
  have "getWordIndexFromScroll (Some (with_boundaries blank_chapter 0 100 100))
          (Finite 150) = Finite 150"
    using b getWordIndexFromScroll_steps [of "with_boundaries blank_chapter 0 100 100" 150
        "3 / 2" 150 150]
    by (simp add: safe_integer_def)
  moreover
  have "getWordIndexFromScroll (Some (with_boundaries blank_chapter 0 100 100)) (Finite (- 10))
          = Finite (- 10)"
    using c getWordIndexFromScroll_steps [of "with_boundaries blank_chapter 0 100 100" "- 10"
        "- 3602879701896397 / 2 ^ 55" "- 10" "- 10"]
    by (simp add: safe_integer_def)
  moreover
  have "getWordIndexFromScroll (Some (with_boundaries blank_chapter 100 250 150))
          (Finite (2345624805922133 / 2 ^ 47)) = Finite 124"
    using d(3,4) d' getWordIndexFromScroll_steps [of "with_boundaries blank_chapter 100 250 150"
        "2345624805922133 / 2 ^ 47" "1501199875790165 / 2 ^ 53" "3518437208883199 / 2 ^ 47" 24]
    by (simp add: safe_integer_def)
  moreover
  have "getWordIndexFromScroll (Some (with_boundaries blank_chapter 0 100 100)) NaN = NaN"
    using fl_of_int [of 100]
    by (simp add: getWordIndexFromScroll_def js_sub_def safe_integer_def)
  moreover
  have "getWordIndexFromScroll None (Finite 50) = Finite 0"
    by (simp add: getWordIndexFromScroll_def)
  ultimately show ?thesis using a d(1,2) by blast
qed

section \<open>Display delay: properties\<close>

text \<open>
  The delay of a token of two characters or more, at a positive rate: the base delay
  \<open>60000 / wpm\<close>, times \<open>3 / 2\<close> after the marker, times the long-word factor for a
  clean word of 12 characters or more, times the punctuation factor.
\<close>

lemma getWordDelay_factors:
  assumes "1 < length w" "0 < wpm"
  shows "getWordDelay w wpm pp pm m lb =
    Finite (60000 / wpm
      * (if hd w = marker then 3 / 2 else 1)
      * (if m > 0 \<and> 12 \<le> length (strip_marker w)
         then 1 + (m / 100) * (of_nat (length (strip_marker w)) - 12) else 1)
      * (if pp \<and> ends_with_any (strip_marker w) (js ''.!?;:'') then pm
         else if pp \<and> ends_with_any (strip_marker w) (js '','') then 3 / 2 else 1))"
proof -
  obtain c cs where w: "w = c # cs" using assms(1) by (cases w) auto
  have nb: "w \<noteq> break_token" using assms(1) by (auto simp: break_token_def)
  have s: "strip_marker w = (if hd w = marker then tl w else w)"
    by (simp add: w strip_marker_def)
  have "wpm \<noteq> 0" "\<not> wpm \<le> 0" using assms(2) by simp_all
  then show ?thesis
    using nb w unfolding getWordDelay_def s Let_def by (simp del: of_nat_Suc)
qed

text \<open>
  Claim C5, as the code has it. For every \<open>wpm > 0\<close>, fixed pause flags and
  \<open>longWordMultiplier > 0\<close>, in exact arithmetic. The length that \<open>getWordDelay\<close>
  measures is that of the token without its marker, in UTF-16 code units, the
  punctuation attached to the word included: it is the number of letters only for a
  word of letters of the Basic Multilingual Plane with nothing attached. For three
  tokens of lengths 11, 12 and 13 that agree on the marker and on the kind of final
  mark (one of \<open>. ! ? ; :\<close>, a comma, or neither): the token of length 12 has the delay
  of the token of length 11, and the token of length 13 has a strictly greater delay
  than the token of length 12, provided that the punctuation multiplier is positive
  when it applies (the pause on punctuation is on and the tokens end in one of
  \<open>. ! ? ; :\<close>). The long-word factor is \<open>1 + (multiplier / 100) * (length - 12)\<close>,
  which is 1 at length 12.
\<close>

theorem getWordDelay_lengths_11_12_13:
  assumes "0 < wpm" "0 < m"
    and "length (strip_marker w11) = 11" "length (strip_marker w12) = 12"
      "length (strip_marker w13) = 13"
    and "token_class w11 = token_class w12" "token_class w13 = token_class w12"
    and "0 < pm \<or> \<not> (pp \<and> ends_with_any (strip_marker w12) (js ''.!?;:''))"
  shows "js_less (getWordDelay w12 wpm pp pm m lb) (getWordDelay w13 wpm pp pm m lb)
       \<and> getWordDelay w12 wpm pp pm m lb = getWordDelay w11 wpm pp pm m lb"
proof -
  define M :: rat where "M = (if hd w12 = marker then 3 / 2 else 1)"
  define P :: rat where
    "P = (if pp \<and> ends_with_any (strip_marker w12) (js ''.!?;:'') then pm
          else if pp \<and> ends_with_any (strip_marker w12) (js '','') then 3 / 2 else 1)"
  define X :: rat where "X = 60000 / wpm * M * P"
  have len: "1 < length w11" "1 < length w12" "1 < length w13"
    using assms(3,4,5) by (auto simp: strip_marker_def split: list.splits if_splits)
  have d11: "getWordDelay w11 wpm pp pm m lb = Finite (60000 / wpm * M * P)"
    using assms(3,6)
    by (simp add: getWordDelay_factors [OF len(1) assms(1)] token_class_def M_def P_def)
  have d12: "getWordDelay w12 wpm pp pm m lb = Finite (60000 / wpm * M * P)"
    using assms(4)
    by (simp add: getWordDelay_factors [OF len(2) assms(1)] M_def P_def)
  have d13: "getWordDelay w13 wpm pp pm m lb = Finite (60000 / wpm * M * (1 + m / 100) * P)"
    using assms(2,5,7)
    by (simp add: getWordDelay_factors [OF len(3) assms(1)] token_class_def M_def P_def)
  have "0 < M" by (simp add: M_def)
  moreover have "0 < P" using assms(8) by (auto simp: P_def)
  ultimately have "0 < 60000 / wpm * M * P" using assms(1) by simp
  then have X: "0 < X" by (simp add: X_def)
  have "0 < X * (m / 100)" using X assms(2) by (simp add: zero_less_mult_iff)
  then have "X < X * (1 + m / 100)" by (simp add: distrib_left)
  also have "\<dots> = 60000 / wpm * M * (1 + m / 100) * P" by (simp add: X_def)
  finally show ?thesis unfolding d11 d12 d13 X_def by simp
qed

text \<open>
  At the component's defaults, with a full stop attached to words of 10, 11 and 12
  letters: the tokens have 11, 12 and 13 characters, and the delays are 400, 400 and 600
  milliseconds.
\<close>

theorem getWordDelay_lengths_11_12_13_witness:
  "(0::rat) < 300 \<and> (0::rat) < 50
   \<and> length (strip_marker (js ''abcdefghij.'')) = 11
   \<and> length (strip_marker (js ''abcdefghijk.'')) = 12
   \<and> length (strip_marker (js ''abcdefghijkl.'')) = 13
   \<and> token_class (js ''abcdefghij.'') = token_class (js ''abcdefghijk.'')
   \<and> token_class (js ''abcdefghijkl.'') = token_class (js ''abcdefghijk.'')
   \<and> (0::rat) < 2
   \<and> js_less (getWordDelay (js ''abcdefghijk.'') 300 True 2 50 3)
              (getWordDelay (js ''abcdefghijkl.'') 300 True 2 50 3)
   \<and> getWordDelay (js ''abcdefghijk.'') 300 True 2 50 3
       = getWordDelay (js ''abcdefghij.'') 300 True 2 50 3
   \<and> getWordDelay (js ''abcdefghijk.'') 300 True 2 50 3 = Finite 400
   \<and> getWordDelay (js ''abcdefghijkl.'') 300 True 2 50 3 = Finite 600"
proof -
  have h: "(0::rat) < 300" "(0::rat) < 50" by simp_all
  have l: "length (strip_marker (js ''abcdefghij.'')) = 11"
    "length (strip_marker (js ''abcdefghijk.'')) = 12"
    "length (strip_marker (js ''abcdefghijkl.'')) = 13"
    by (simp_all add: strip_marker_def js_def marker_def)
  have c: "token_class (js ''abcdefghij.'') = token_class (js ''abcdefghijk.'')"
    "token_class (js ''abcdefghijkl.'') = token_class (js ''abcdefghijk.'')"
    by (simp_all add: token_class_def strip_marker_def js_def marker_def ends_with_any_def)
  have q: "(0::rat) < 2" by simp
  then have q': "(0::rat) < 2 \<or> \<not> (True \<and> ends_with_any (strip_marker (js ''abcdefghijk.'')) (js ''.!?;:''))"
    by blast
  have v: "getWordDelay (js ''abcdefghijk.'') 300 True 2 50 3 = Finite 400"
    "getWordDelay (js ''abcdefghijkl.'') 300 True 2 50 3 = Finite 600"
    by (simp_all add: getWordDelay_def js_def break_token_def newline_def marker_def
          ends_with_any_def)
  show ?thesis
    using h l c q v getWordDelay_lengths_11_12_13 [OF h l c q', of 3] by blast
qed

text \<open>With the component's defaults (300 words per minute, multiplier 50), a 12-letter
  word is not shown longer than an 11-letter word.\<close>

theorem getWordDelay_lengths_11_12_counterexample:
  "\<not> js_less (getWordDelay (js ''abcdefghijk'') 300 True 2 50 3)
              (getWordDelay (js ''abcdefghijkl'') 300 True 2 50 3)"
  by (simp add: getWordDelay_def js_def break_token_def newline_def marker_def ends_with_any_def)

section \<open>Optimal recognition point: properties\<close>

lemma keep_letters_no_surrogate:
  "\<forall>c \<in> set w. \<not> is_high_surrogate c \<Longrightarrow> keep_letters L w = filter L w"
  by (induction L w rule: keep_letters.induct) auto

lemma code_points_no_surrogate:
  "\<forall>c \<in> set w. \<not> is_high_surrogate c \<Longrightarrow> code_points w = w"
  by (induction w rule: code_points.induct) auto

lemma set_strip_marker: "set (strip_marker w) \<subseteq> set w"
  by (auto simp: strip_marker_def split: list.splits if_splits)

text \<open>
  Claim C7, at a word of two letters outside the Basic Multilingual Plane, U+20000 and
  U+20001 (CJK ideographs, each a surrogate pair). The word has two letters, for which
  the table gives index 0; \<open>getORPIndex\<close> takes the length of the kept string in code
  units, 4, and returns 1.
\<close>

theorem getORPIndex_counts_code_units:
  "getORPIndex sample_letters [0xD840, 0xDC00, 0xD840, 0xDC01] = 1
   \<and> spec_letter_count sample_letters [0xD840, 0xDC00, 0xD840, 0xDC01] = 2
   \<and> orp_table 2 = 0"
  by (simp add: getORPIndex_def spec_letter_count_def strip_marker_def marker_def
      is_high_surrogate_def is_low_surrogate_def code_point_def sample_letters_def orp_table_def)

text \<open>
  On a word without surrogates \<open>getORPIndex\<close> is the table applied to the number of
  letters of the marker-stripped word, whatever the table of letters.
\<close>

theorem getORPIndex_table:
  assumes "\<forall>c \<in> set w. \<not> is_high_surrogate c"
  shows "getORPIndex L w = orp_table (spec_letter_count L w)"
proof -
  have "\<forall>c \<in> set (strip_marker w). \<not> is_high_surrogate c"
    using assms set_strip_marker by blast
  then show ?thesis
    by (cases "w = []")
       (simp_all add: getORPIndex_def spec_letter_count_def keep_letters_no_surrogate
          code_points_no_surrogate strip_marker_def orp_table_def)
qed

theorem getORPIndex_table_witness:
  "list_all (\<lambda>c. \<not> is_high_surrogate c) (js ''reading'')
   \<and> getORPIndex sample_letters (js ''reading'') = orp_table 7
   \<and> spec_letter_count sample_letters (js ''reading'') = 7"
proof -
  have a: "\<forall>c \<in> set (js ''reading''). \<not> is_high_surrogate c"
    by (simp add: js_def is_high_surrogate_def)
  have b: "spec_letter_count sample_letters (js ''reading'') = 7"
    by (simp add: spec_letter_count_def js_def strip_marker_def marker_def sample_letters_def
        is_high_surrogate_def)
  have c: "list_all (\<lambda>c. \<not> is_high_surrogate c) (js ''reading'')"
    using a by (simp add: list_all_iff)
  show ?thesis
    using b c getORPIndex_table [OF a, of sample_letters] by simp
qed

text \<open>The two scenarios of the specification: \<open>"reading"\<close> gives 2 and \<open>"a"\<close> gives 0.\<close>

theorem getORPIndex_reading:
  "getORPIndex sample_letters (js ''reading'') = 2 \<and> getORPIndex sample_letters (js ''a'') = 0"
  by (simp add: getORPIndex_def js_def strip_marker_def marker_def sample_letters_def
      orp_table_def is_high_surrogate_def is_low_surrogate_def)

lemma orp_scan_bound:
  "orp_scan L k cs i n = Some r \<Longrightarrow> i \<le> r \<and> r < i + length cs"
  by (induction L k cs i n rule: orp_scan.induct) (auto split: if_splits)

lemma orp_scan_letter:
  "orp_scan L k cs i n = Some r \<Longrightarrow>
     L (cs ! (r - i)) \<and> n + length (filter L (take (r - i) cs)) = k"
proof (induction L k cs i n rule: orp_scan.induct)
  case (1 L orpIndex i letterCount)
  then show ?case by simp
next
  case (2 L orpIndex c cs i letterCount)
  show ?case
  proof (cases "L c")
    case True
    show ?thesis
    proof (cases "letterCount = orpIndex")
      case True
      with \<open>L c\<close> 2 show ?thesis by simp
    next
      case False
      with \<open>L c\<close> 2 have s: "orp_scan L orpIndex cs (i + 1) (letterCount + 1) = Some r"
        by simp
      have "r - i = Suc (r - (i + 1))" using orp_scan_bound [OF s] by arith
      with 2(1) [OF \<open>L c\<close> False s] \<open>L c\<close> show ?thesis by simp
    qed
  next
    case False
    with 2 have s: "orp_scan L orpIndex cs (i + 1) letterCount = Some r" by simp
    have "r - i = Suc (r - (i + 1))" using orp_scan_bound [OF s] by arith
    with 2(2) [OF False s] False show ?thesis by simp
  qed
qed

text \<open>
  Claim C9, at the word that is the marker U+27E9 alone. The word is not empty; after
  the marker is stripped nothing is left, the loop does not run, and the function
  returns \<open>Math.min(0, 0 - 1) = -1\<close>.
\<close>

theorem getActualORPIndex_marker_only:
  "getActualORPIndex L [marker] = - 1"
  by (simp add: getActualORPIndex_def getORPIndex_def strip_marker_def orp_table_def)

text \<open>
  When something is left of the word after the marker is stripped, the result of
  \<open>getActualORPIndex\<close> is an index of the stripped word. When the loop returns, the
  character there is a letter and the number of letters before it is the ORP letter
  index; otherwise the result is the smaller of that index and the last position.
\<close>

theorem getActualORPIndex_in_bounds:
  assumes "strip_marker w \<noteq> []"
  shows "0 \<le> getActualORPIndex L w \<and> getActualORPIndex L w < int (length (strip_marker w))
       \<and> (case orp_scan L (getORPIndex L (strip_marker w)) (strip_marker w) 0 0 of
             Some i \<Rightarrow> getActualORPIndex L w = int i \<and> L (strip_marker w ! i)
                \<and> length (filter L (take i (strip_marker w))) = getORPIndex L (strip_marker w)
           | None \<Rightarrow> getActualORPIndex L w =
                min (int (getORPIndex L (strip_marker w))) (int (length (strip_marker w)) - 1))"
proof -
  have w: "w \<noteq> []" using assms by (auto simp: strip_marker_def)
  show ?thesis
  proof (cases "orp_scan L (getORPIndex L (strip_marker w)) (strip_marker w) 0 0")
    case None
    then show ?thesis using w assms by (simp add: getActualORPIndex_def Let_def)
  next
    case (Some r)
    from orp_scan_bound [OF Some] orp_scan_letter [OF Some] show ?thesis
      using w Some by (simp add: getActualORPIndex_def Let_def)
  qed
qed

theorem getActualORPIndex_in_bounds_witness:
  "strip_marker (js ''(reading)'') \<noteq> []
   \<and> getActualORPIndex sample_letters (js ''(reading)'') = 3
   \<and> 0 \<le> getActualORPIndex sample_letters (js ''(reading)'')
   \<and> getActualORPIndex sample_letters (js ''(reading)'') < int (length (strip_marker (js ''(reading)'')))"
proof -
  have a: "strip_marker (js ''(reading)'') \<noteq> []"
    by (simp add: strip_marker_def js_def marker_def)
  have b: "getActualORPIndex sample_letters (js ''(reading)'') = 3"
    by (simp add: getActualORPIndex_def getORPIndex_def js_def strip_marker_def marker_def
        sample_letters_def orp_table_def is_high_surrogate_def is_low_surrogate_def)
  show ?thesis
    using a b getActualORPIndex_in_bounds [OF a, of sample_letters] by simp
qed

section \<open>The word stream: properties\<close>

lemma split_lines_not_Nil [simp]: "split_lines s \<noteq> []"
  by (induction s) (auto split: list.splits)

lemma split_lines_append: "split_lines (a @ newline # b) = split_lines a @ split_lines b"
proof (induction a)
  case Nil
  then show ?case by simp
next
  case (Cons c a)
  obtain l ls where l: "split_lines a = l # ls" by (cases "split_lines a") auto
  show ?case using Cons l by simp
qed


lemma split_spaces_Nil [simp]: "split_spaces [] = [[]]"
  by (simp add: split_spaces.simps)


lemma parse_line_eq:
  "parse_line ws raw =
     (if line_words raw = [] then ws
      else if ws = [] then line_words raw
      else ws @ [break_token] @ mark_first (line_words raw))"
proof (cases "trim raw = []")
  case True
  then show ?thesis by (simp add: parse_line_def line_words_def)
next
  case False
  then show ?thesis
    by (cases "line_words raw") (auto simp: parse_line_def line_words_def Let_def)
qed

lemma mark_first_append: "xs \<noteq> [] \<Longrightarrow> mark_first (xs @ ys) = mark_first xs @ ys"
  by (cases xs) auto

lemma mark_first_Nil_iff [simp]: "(mark_first xs = []) = (xs = [])"
  by (cases xs) auto

lemma foldl_parse_line:
  "foldl parse_line acc ls =
     (if foldl parse_line [] ls = [] then acc
      else if acc = [] then foldl parse_line [] ls
      else acc @ [break_token] @ mark_first (foldl parse_line [] ls))"
proof (induction ls rule: rev_induct)
  case Nil
  then show ?case by simp
next
  case (snoc l ls)
  define P where "P = foldl parse_line [] ls"
  define Q where "Q = foldl parse_line acc ls"
  have IH: "Q = (if P = [] then acc else if acc = [] then P
                 else acc @ [break_token] @ mark_first P)"
    using snoc by (simp add: P_def Q_def)
  have 1: "foldl parse_line acc (ls @ [l]) = parse_line Q l"
    and 2: "foldl parse_line [] (ls @ [l]) = parse_line P l"
    by (simp_all add: P_def Q_def)
  show ?case
    unfolding 1 2 parse_line_eq [of _ l] IH
    by (auto simp: mark_first_append)
qed


lemma parseText_foldl: "parseText t = foldl parse_line [] (split_lines t)"
  by (simp add: parseText_def parse_line_eq line_words_def trim_def)













lemma split_spaces_not_Nil [simp]: "split_spaces s \<noteq> []"
  by (subst split_spaces.simps) (simp add: Let_def)

text \<open>\<open>split_spaces\<close> read character by character, for evaluation.\<close>

lemma split_spaces_Cons:
  "split_spaces (c # cs) =
     (if is_space c then [] # split_spaces (dropWhile is_space cs)
      else (case split_spaces cs of [] \<Rightarrow> [[c]] | w # ws \<Rightarrow> (c # w) # ws))"
proof (cases "is_space c")
  case True
  then show ?thesis by (subst split_spaces.simps) (simp add: Let_def)
next
  case False
  have "split_spaces cs = (let w = takeWhile (\<lambda>c. \<not> is_space c) cs;
          r = dropWhile (\<lambda>c. \<not> is_space c) cs
      in if r = [] then [w] else w # split_spaces (dropWhile is_space r))"
    by (rule split_spaces.simps)
  then show ?thesis using False
    by (subst split_spaces.simps) (simp add: Let_def)
qed

lemmas parseText_eval =
  parseText_def parse_line_def trim_def js_def split_spaces_Cons is_space_def newline_def

lemma parseText_hello: "parseText (js ''Hello world.'') = [js ''Hello'', js ''world.'']"
  by (simp add: parseText_eval)

lemma parseText_next:
  "parseText (js ''Next paragraph here.'') = [js ''Next'', js ''paragraph'', js ''here.'']"
  by (simp add: parseText_eval)



text \<open>The scenario of the specification: two paragraphs and one blank line give six
  tokens, the third a break and the fourth marked.\<close>

theorem parseText_scenario:
  "parseText (js ''Hello world.'' @ [newline, newline] @ js ''Next paragraph here.'')
     = [js ''Hello'', js ''world.'', break_token, marker # js ''Next'', js ''paragraph'',
        js ''here.'']"
  by (simp add: parseText_eval)

section \<open>Word boundaries: properties\<close>

lemma boundaries_from_tiles:
  "boundaries_from k chs = (ws, cs, imgs) \<Longrightarrow>
     tiles k cs (k + int (length ws)) \<and> sum_list (map wordCount cs) = int (length ws)"
proof (induction chs arbitrary: k ws cs imgs)
  case Nil
  then show ?case by simp
next
  case (Cons ch chs)
  obtain ws' cs' imgs' where
    r: "boundaries_from (k + int (length (parseText (plainText ch)))) chs = (ws', cs', imgs')"
    by (cases "boundaries_from (k + int (length (parseText (plainText ch)))) chs") auto
  from Cons.IH [OF r] Cons.prems r show ?case
    by (auto simp: Let_def add.assoc)
qed

lemma word_boundaries_from_tiles:
  "tiles k (word_boundaries_from k chs)
     (k + sum_list (map wordCount (word_boundaries_from k chs)))"
proof (induction chs arbitrary: k)
  case Nil
  then show ?case by simp
next
  case (Cons ch chs)
  from Cons [of "k + int (length (parseText (plainText ch)))"] show ?case
    by (simp add: Let_def add.assoc)
qed

text \<open>
  Claim C1, on the PDF path, at a PDF of two pages \<open>"a"\<close> and \<open>"b"\<close> whose outline has
  one entry for each page. The word stream of the document has three tokens, the two
  words and the break token between the pages; the chapters are parsed one by one,
  cover \<open>[0,1)\<close> and \<open>[1,2)\<close>, and their word counts add up to two. The intervals do not
  cover the word stream that is returned with them.
\<close>

theorem parsePDFWithStructure_two_chapters:
  "result_words (parsePDFWithStructure [js ''a'', js ''b''] (Some two_page_outline) (js ''x.pdf''))
     = [js ''a'', break_token, marker # js ''b'']
   \<and> map (\<lambda>c. (startWordIndex c, endWordIndex c, wordCount c))
        (chapters (result_contentStructure
           (parsePDFWithStructure [js ''a'', js ''b''] (Some two_page_outline) (js ''x.pdf''))))
     = [(0, 1, 1), (1, 2, 1)]
   \<and> \<not> tiles 0
        (chapters (result_contentStructure
           (parsePDFWithStructure [js ''a'', js ''b''] (Some two_page_outline) (js ''x.pdf''))))
        (int (length (result_words
           (parsePDFWithStructure [js ''a'', js ''b''] (Some two_page_outline) (js ''x.pdf'')))))"
  by (simp add: parsePDFWithStructure_def two_page_outline_def buildChaptersFromOutline_def
      getOutlinePageNumber_def slice_def page_separator_def calculateWordBoundaries_def
      Let_def parseText_eval break_token_def)

text \<open>
  On the EPUB path the token coverage holds for every list of chapters: the word
  stream is the concatenation of the chapters' streams, the intervals tile
  \<open>[0, words.length)\<close> in chapter order, and the word counts add up to \<open>words.length\<close>.
\<close>

theorem parseEPUBWithStructure_token_coverage:
  "tiles 0 (chapters (result_contentStructure (parseEPUBWithStructure chs hasToc)))
        (int (length (result_words (parseEPUBWithStructure chs hasToc))))
   \<and> sum_list (map wordCount
        (chapters (result_contentStructure (parseEPUBWithStructure chs hasToc))))
      = int (length (result_words (parseEPUBWithStructure chs hasToc)))"
proof -
  obtain ws cs imgs where r: "boundaries_from 0 chs = (ws, cs, imgs)"
    by (cases "boundaries_from 0 chs") auto
  from boundaries_from_tiles [OF r] r show ?thesis
    by (simp add: parseEPUBWithStructure_def buildWordBoundaries_def)
qed

text \<open>
  On the PDF path the intervals of the chapters always tile \<open>[0, n)\<close> for \<open>n\<close> the sum
  of the chapters' word counts, whatever the length of the word stream.
\<close>

theorem parsePDFWithStructure_contiguous:
  "tiles 0 (chapters (result_contentStructure (parsePDFWithStructure pageTexts outline fileName)))
     (sum_list (map wordCount
        (chapters (result_contentStructure (parsePDFWithStructure pageTexts outline fileName)))))"
  using word_boundaries_from_tiles [of 0]
  by (simp add: parsePDFWithStructure_def calculateWordBoundaries_def Let_def)

lemma parseText_two_pages:
  "parseText (a @ page_separator @ b) =
     (if parseText b = [] then parseText a
      else if parseText a = [] then parseText b
      else parseText a @ [break_token] @ mark_first (parseText b))"
proof -
  have "split_lines (a @ page_separator @ b) = split_lines a @ [] # split_lines b"
    using split_lines_append [of a "newline # b"] by (simp add: page_separator_def)
  moreover have "parse_line acc [] = acc" for acc
    by (simp add: parse_line_def trim_def)
  ultimately have "parseText (a @ page_separator @ b)
      = foldl parse_line (parseText a) (split_lines b)"
    by (simp add: parseText_foldl)
  then show ?thesis
    using foldl_parse_line [of "parseText a" "split_lines b"] by (simp add: parseText_foldl)
qed

lemma length_mark_first [simp]: "length (mark_first ws) = length ws"
  by (cases ws) simp_all

text \<open>
  On the PDF path, for two pages that each hold a word and an outline with one entry
  for each page, the returned word stream is one token longer than the sum of the
  chapters' word counts: the break token between the pages belongs to no chapter.
\<close>

theorem parsePDFWithStructure_two_pages_gap:
  assumes "parseText a \<noteq> []" "parseText b \<noteq> []"
  shows "int (length (result_words (parsePDFWithStructure [a, b] (Some two_page_outline) f)))
     = sum_list (map wordCount
         (chapters (result_contentStructure
            (parsePDFWithStructure [a, b] (Some two_page_outline) f)))) + 1"
  using assms
  by (simp add: parsePDFWithStructure_def two_page_outline_def buildChaptersFromOutline_def
      getOutlinePageNumber_def slice_def calculateWordBoundaries_def Let_def
      parseText_two_pages [of a b, simplified])

theorem parsePDFWithStructure_two_pages_gap_witness:
  "parseText (js ''Hello world.'') \<noteq> [] \<and> parseText (js ''Next paragraph here.'') \<noteq> []
   \<and> int (length (result_words (parsePDFWithStructure
        [js ''Hello world.'', js ''Next paragraph here.''] (Some two_page_outline) (js ''x.pdf'')))) = 6
   \<and> sum_list (map wordCount
         (chapters (result_contentStructure
            (parsePDFWithStructure [js ''Hello world.'', js ''Next paragraph here.'']
               (Some two_page_outline) (js ''x.pdf''))))) = 5"
proof -
  have a: "parseText (js ''Hello world.'') \<noteq> []" "parseText (js ''Next paragraph here.'') \<noteq> []"
    by (simp_all add: parseText_hello parseText_next)
  have c: "sum_list (map wordCount
         (chapters (result_contentStructure
            (parsePDFWithStructure [js ''Hello world.'', js ''Next paragraph here.'']
               (Some two_page_outline) (js ''x.pdf''))))) = 5"
    by (simp add: parsePDFWithStructure_def two_page_outline_def buildChaptersFromOutline_def
      getOutlinePageNumber_def slice_def calculateWordBoundaries_def Let_def
      parseText_hello parseText_next)
  show ?thesis
    using a c parsePDFWithStructure_two_pages_gap [OF a, of "js ''x.pdf''"] by simp
qed

lemma chunk_size_small: "n < 20 \<Longrightarrow> chunk_size n = n"
proof -
  assume "n < 20"
  then have "max 1 (n div 10) = 1" by simp
  then show ?thesis by (simp add: chunk_size_def)
qed

lemma page_chunks_small:
  assumes "0 < length pageTexts" "length pageTexts < 20"
  shows "page_chunks pageTexts 0 =
    [\<lparr> title = PageNo 1, plainText = join page_separator pageTexts, images = [] \<rparr>]"
proof -
  have e: "page_chunks pageTexts (length pageTexts) = []"
    by (subst page_chunks.simps) simp
  show ?thesis
    using assms e by (subst page_chunks.simps) (simp add: chunk_size_small Let_def slice_def)
qed

text \<open>
  A PDF without outline and with fewer than 20 pages becomes one chapter whose text is
  the text of the document; its interval is the whole word stream.
\<close>

theorem parsePDFWithStructure_single_chapter:
  assumes "0 < length pageTexts" "length pageTexts < 20"
  shows "tiles 0
     (chapters (result_contentStructure (parsePDFWithStructure pageTexts None fileName)))
     (int (length (result_words (parsePDFWithStructure pageTexts None fileName))))"
  using assms
  by (simp add: parsePDFWithStructure_def buildPageBasedChapters_def page_chunks_small
      calculateWordBoundaries_def Let_def)

theorem parsePDFWithStructure_single_chapter_witness:
  "0 < length [js ''a'', js ''b''] \<and> length [js ''a'', js ''b''] < 20
   \<and> tiles 0
     (chapters (result_contentStructure
        (parsePDFWithStructure [js ''a'', js ''b''] None (js ''x.pdf''))))
     (int (length (result_words (parsePDFWithStructure [js ''a'', js ''b''] None (js ''x.pdf'')))))"
  using parsePDFWithStructure_single_chapter [of "[js ''a'', js ''b'']" "js ''x.pdf''"]
  by simp

section \<open>Session storage: properties\<close>

lemma keys_distinct [simp]:
  "STORAGE_KEY \<noteq> USE_INDEXEDDB_KEY" "USE_INDEXEDDB_KEY \<noteq> STORAGE_KEY"
  "testKey \<noteq> USE_INDEXEDDB_KEY" "USE_INDEXEDDB_KEY \<noteq> testKey"
  "testKey \<noteq> STORAGE_KEY" "STORAGE_KEY \<noteq> testKey"
  by (simp_all add: STORAGE_KEY_def USE_INDEXEDDB_KEY_def testKey_def js_def)

text \<open>
  Claim C3, at a \<open>localStorage\<close> that refuses every write with a quota error. The
  probe write fails; the handler writes the flag to the same \<open>localStorage\<close>, outside
  any \<open>try\<close>, and that write throws out of \<open>saveSession\<close>. Nothing is saved to
  IndexedDB and no flag is kept.
\<close>

theorem saveSession_quota_everywhere:
  "fst (saveSession refusing_platform empty_storage session) = Threw QuotaExceededError
   \<and> idb_record (snd (saveSession refusing_platform empty_storage session)) = None
   \<and> local_items (snd (saveSession refusing_platform empty_storage session))
        USE_INDEXEDDB_KEY = None
   \<and> accesses (snd (saveSession refusing_platform empty_storage session))
       = [LocalGet USE_INDEXEDDB_KEY, LocalSet testKey, LocalSet USE_INDEXEDDB_KEY]"
  by (simp add: saveSession_def getItem_def setItem_def refusing_platform_def empty_storage_def)

text \<open>
  Promotion to the large tier, when \<open>localStorage\<close> takes the probe and the flag. If
  the flag is not yet set, and the payload is over 2MB or the write of the payload
  fails with a quota error, then \<open>saveSession\<close> hands the same session to IndexedDB,
  returns its promise, sets the flag, leaves the session key of \<open>localStorage\<close> as it
  was, and the next \<open>loadSession\<close> returns that session from IndexedDB.
\<close>

theorem saveSession_promotes:
  assumes flag: "local_items st USE_INDEXEDDB_KEY \<noteq> Some (js ''true'')"
    and test: "setItem_throws env (local_items st) testKey (js ''test'') = None"
    and full: "utf8_length (stringify env (make_data session (now env))) > 2 * (1024 * 1024)
         \<or> setItem_throws env ((local_items st)(testKey := None)) STORAGE_KEY
              (stringify env (make_data session (now env))) = Some QuotaExceededError"
    and ok: "setItem_throws env ((local_items st)(testKey := None)) USE_INDEXEDDB_KEY
              (js ''true'') = None"
  shows "fst (saveSession env st session) = Promise (idb_available st)
       \<and> idb_record (snd (saveSession env st session))
           = (if idb_available st then Some (session, now env) else idb_record st)
       \<and> local_items (snd (saveSession env st session)) USE_INDEXEDDB_KEY = Some (js ''true'')
       \<and> local_items (snd (saveSession env st session)) STORAGE_KEY = local_items st STORAGE_KEY
       \<and> fst (loadSession env (snd (saveSession env st session)))
           = (if idb_available st then FromIndexedDB session (now env) else NoSession)"
proof (cases "utf8_length (stringify env (make_data session (now env))) > 2 * (1024 * 1024)")
  case True
  then show ?thesis
    using flag test ok
    by (simp add: saveSession_def getItem_def setItem_def removeItem_def Let_def
        saveSessionToIndexedDB_def loadSession_def loadSessionFromIndexedDB_def)
next
  case False
  with full have q: "setItem_throws env ((local_items st)(testKey := None)) STORAGE_KEY
              (stringify env (make_data session (now env))) = Some QuotaExceededError"
    by simp
  show ?thesis
    using flag test ok False q
    by (simp add: saveSession_def getItem_def setItem_def removeItem_def Let_def
        save_failed_def saveSessionToIndexedDB_def loadSession_def
        loadSessionFromIndexedDB_def)
qed

theorem saveSession_promotes_witness:
  "local_items empty_storage USE_INDEXEDDB_KEY \<noteq> Some (js ''true'')
   \<and> fst (saveSession small_platform empty_storage session_200) = Promise True
   \<and> local_items (snd (saveSession small_platform empty_storage session_200))
        USE_INDEXEDDB_KEY = Some (js ''true'')
   \<and> fst (loadSession small_platform
             (snd (saveSession small_platform empty_storage session_200)))
        = FromIndexedDB session_200 0"
proof -
  have s: "stringify small_platform (make_data session_200 (now small_platform))
      = replicate 200 0x61"
    by (simp add: small_platform_def make_data_def session_200_def)
  have flag: "local_items empty_storage USE_INDEXEDDB_KEY \<noteq> Some (js ''true'')"
    by (simp add: empty_storage_def)
  have test: "setItem_throws small_platform (local_items empty_storage) testKey (js ''test'')
      = None"
    by (simp add: small_platform_def js_def)
  have full: "utf8_length (stringify small_platform (make_data session_200 (now small_platform)))
           > 2 * (1024 * 1024)
         \<or> setItem_throws small_platform ((local_items empty_storage)(testKey := None))
              STORAGE_KEY (stringify small_platform (make_data session_200 (now small_platform)))
            = Some QuotaExceededError"
    unfolding s by (simp add: small_platform_def)
  have ok: "setItem_throws small_platform ((local_items empty_storage)(testKey := None))
      USE_INDEXEDDB_KEY (js ''true'') = None"
    by (simp add: small_platform_def js_def)
  have av: "idb_available empty_storage" "now small_platform = 0"
    by (simp_all add: empty_storage_def small_platform_def)
  show ?thesis
    using flag av saveSession_promotes [OF flag test full ok] by simp
qed

text \<open>
  With the flag set, \<open>loadSession\<close> reads the flag and then IndexedDB, and nothing
  else: the session key of \<open>localStorage\<close> is not read.
\<close>

theorem loadSession_flag_set:
  assumes "local_items st USE_INDEXEDDB_KEY = Some (js ''true'')"
  shows "fst (loadSession env st) = fst (loadSessionFromIndexedDB st)
       \<and> accesses (snd (loadSession env st))
           = accesses st @ [LocalGet USE_INDEXEDDB_KEY, IdbGet]"
  using assms
  by (simp add: loadSession_def getItem_def loadSessionFromIndexedDB_def Let_def
      split: option.splits prod.splits)

theorem loadSession_flag_set_witness:
  "local_items (empty_storage\<lparr> local_items := [USE_INDEXEDDB_KEY \<mapsto> js ''true''] \<rparr>)
      USE_INDEXEDDB_KEY = Some (js ''true'')
   \<and> fst (loadSession small_platform
        (empty_storage\<lparr> local_items := [USE_INDEXEDDB_KEY \<mapsto> js ''true''] \<rparr>)) = NoSession
   \<and> accesses (snd (loadSession small_platform
        (empty_storage\<lparr> local_items := [USE_INDEXEDDB_KEY \<mapsto> js ''true''] \<rparr>)))
       = [LocalGet USE_INDEXEDDB_KEY, IdbGet]"
  using loadSession_flag_set
    [of "empty_storage\<lparr> local_items := [USE_INDEXEDDB_KEY \<mapsto> js ''true''] \<rparr>" small_platform]
  by (simp add: loadSessionFromIndexedDB_def empty_storage_def)

lemma utf8_length_ascii: "\<forall>c \<in> set s. c < 0x80 \<Longrightarrow> utf8_length s = length s"
  by (induction s rule: utf8_length.induct)
     (auto simp: unit_bytes_def is_high_surrogate_def)

text \<open>
  When \<open>localStorage\<close> takes the probe, the payload is not over 2MB, the write of the
  payload fails with a quota error and the write of the flag is refused too, the
  error of the flag write leaves \<open>saveSession\<close>; nothing reaches IndexedDB and the flag
  is as before.
\<close>

theorem saveSession_flag_refused:
  assumes flag: "local_items st USE_INDEXEDDB_KEY \<noteq> Some (js ''true'')"
    and test: "setItem_throws env (local_items st) testKey (js ''test'') = None"
    and small: "utf8_length (stringify env (make_data session (now env))) \<le> 2 * (1024 * 1024)"
    and full: "setItem_throws env ((local_items st)(testKey := None)) STORAGE_KEY
              (stringify env (make_data session (now env))) = Some QuotaExceededError"
    and refused: "setItem_throws env ((local_items st)(testKey := None)) USE_INDEXEDDB_KEY
              (js ''true'') = Some e"
  shows "fst (saveSession env st session) = Threw e
       \<and> idb_record (snd (saveSession env st session)) = idb_record st
       \<and> local_items (snd (saveSession env st session)) USE_INDEXEDDB_KEY
           = local_items st USE_INDEXEDDB_KEY"
  using assms
  by (simp add: saveSession_def getItem_def setItem_def removeItem_def Let_def save_failed_def)

theorem saveSession_flag_refused_witness:
  "local_items empty_storage USE_INDEXEDDB_KEY \<noteq> Some (js ''true'')
   \<and> fst (saveSession probe_only_platform empty_storage session_200) = Threw QuotaExceededError
   \<and> idb_record (snd (saveSession probe_only_platform empty_storage session_200)) = None"
proof -
  have s: "stringify probe_only_platform (make_data session_200 (now probe_only_platform))
      = replicate 200 0x61"
    by (simp add: probe_only_platform_def make_data_def session_200_def)
  have u: "utf8_length (replicate 200 0x61) = 200"
    by (simp add: utf8_length_ascii)
  have flag: "local_items empty_storage USE_INDEXEDDB_KEY \<noteq> Some (js ''true'')"
    by (simp add: empty_storage_def)
  have test: "setItem_throws probe_only_platform (local_items empty_storage) testKey (js ''test'')
      = None"
    by (simp add: probe_only_platform_def)
  have small: "utf8_length (stringify probe_only_platform (make_data session_200 (now probe_only_platform)))
      \<le> 2 * (1024 * 1024)"
    unfolding s u by simp
  have full: "setItem_throws probe_only_platform ((local_items empty_storage)(testKey := None))
              STORAGE_KEY (stringify probe_only_platform (make_data session_200 (now probe_only_platform)))
            = Some QuotaExceededError"
    by (simp add: probe_only_platform_def)
  have refused: "setItem_throws probe_only_platform ((local_items empty_storage)(testKey := None))
      USE_INDEXEDDB_KEY (js ''true'') = Some QuotaExceededError"
    by (simp add: probe_only_platform_def)
  have i: "idb_record empty_storage = None" by (simp add: empty_storage_def)
  show ?thesis
    using flag i saveSession_flag_refused [OF flag test small full refused] by simp
qed

section \<open>Playback and reading modes: properties\<close>

lemmas app_defs = start_def showNextWord_def scheduleNextWord_def startAutoSave_def stopAutoSave_def
  saveCurrentSession_def setTimeout_def clearTimeout_def showImage_def stop_def pause_def
  clear_step_timer_def app_getWordDelay_def shouldPauseAtWord_def percent_def at_index_def
  fire_step_def step_pending_def

text \<open>
  Claim C2, on an EPUB of three words with an image marker after the first word.
  Playback starts and shows the first word; the step timer fires at the position of
  the marker; \<open>showImage\<close> returns at once because the image is unavailable, and
  \<open>showNextWord\<close> returns after it without scheduling the next step. Playback is not
  paused, and it does not go on: the position stays, no step timer is pending, and a
  further call of \<open>showNextWord\<close> (as after pause and resume) changes nothing.
\<close>

theorem showNextWord_unavailable_image_halts:
  "currentWordIndex (start epub_app) = 1 \<and> step_pending (start epub_app)
   \<and> currentWordIndex (fire_step (start epub_app)) = 1
   \<and> isPlaying (fire_step (start epub_app))
   \<and> \<not> isPaused (fire_step (start epub_app))
   \<and> \<not> step_pending (fire_step (start epub_app))
   \<and> showNextWord (fire_step (start epub_app)) = fire_step (start epub_app)"
  by (simp add: app_defs epub_app_def initial_app_def one_chapter_def epub_image_def
      default_settings_def Let_def)

text \<open>The same document without the marker: the second step shows the second word and
  schedules the third.\<close>

theorem playback_without_image:
  "currentWordIndex (start initial_app) = 1 \<and> step_pending (start initial_app)
   \<and> currentWordIndex (fire_step (start initial_app)) = 2
   \<and> step_pending (fire_step (start initial_app))"
  by (simp add: app_defs initial_app_def one_chapter_def default_settings_def Let_def
      getWordDelay_def js_def break_token_def newline_def marker_def ends_with_any_def)

lemma same_document_refl [simp]: "same_document s s"
  by (simp add: same_document_def)

lemma same_document_trans: "same_document s t \<Longrightarrow> same_document t u \<Longrightarrow> same_document s u"
  by (simp add: same_document_def)

lemma same_document_clearTimeout [simp]: "same_document s (clearTimeout i s)"
  by (simp add: same_document_def clearTimeout_def)

lemma same_document_setTimeout [simp]: "same_document s (snd (setTimeout cb d s))"
  by (simp add: same_document_def setTimeout_def)

lemma same_document_saveCurrentSession [simp]: "same_document s (saveCurrentSession s)"
  by (simp add: same_document_def saveCurrentSession_def)

lemma same_document_stopAutoSave [simp]: "same_document s (stopAutoSave s)"
  by (simp add: same_document_def stopAutoSave_def clearTimeout_def split: option.splits)

lemma same_document_clear_step_timer [simp]: "same_document s (clear_step_timer s)"
  by (simp add: same_document_def clear_step_timer_def clearTimeout_def split: option.splits)

lemma same_document_startAutoSave [simp]: "same_document s (startAutoSave s)"
  by (simp add: same_document_def startAutoSave_def setTimeout_def stopAutoSave_def
      saveCurrentSession_def clearTimeout_def split: option.splits prod.splits)

lemma same_document_pause [simp]: "same_document s (pause s)"
  by (simp add: same_document_def pause_def saveCurrentSession_def stopAutoSave_def
      clear_step_timer_def clearTimeout_def split: option.splits)

lemma same_document_stop [simp]: "same_document s (stop s)"
  by (simp add: same_document_def stop_def saveCurrentSession_def stopAutoSave_def
      clear_step_timer_def clearTimeout_def split: option.splits)

lemma same_document_scheduleNextWord [simp]: "same_document s (scheduleNextWord s)"
  by (simp add: same_document_def scheduleNextWord_def setTimeout_def Let_def split: prod.splits)

lemma same_document_showImage [simp]: "same_document s (showImage img s)"
  by (simp add: same_document_def showImage_def setTimeout_def Let_def)

lemma same_document_stopReaderAutoScroll [simp]: "same_document s (stopReaderAutoScroll s)"
  by (simp add: same_document_def stopReaderAutoScroll_def saveCurrentSession_def stopAutoSave_def
      clearTimeout_def Let_def split: option.splits)

lemma currentWordIndex_showNextWord:
  "currentWordIndex (showNextWord s)
     = (if first_step_advances s then currentWordIndex s + 1 else currentWordIndex s)"
proof (cases "currentWordIndex s \<ge> int (length (words s))")
  case True
  then show ?thesis
    using same_document_stop [of s]
    by (simp add: showNextWord_def first_step_advances_def same_document_def)
next
  case False
  show ?thesis
  proof (cases "image_at_position s")
    case (Some img)
    then show ?thesis
      using False same_document_showImage [of s img]
      by (simp add: showNextWord_def first_step_advances_def image_at_position_def same_document_def)
  next
    case None
    show ?thesis
    proof (cases "shouldPauseAtWord (currentWordIndex s) (pauseAfterWords (settings s))")
      case True
      then show ?thesis
        using False None
        by (simp add: showNextWord_def first_step_advances_def image_at_position_def setTimeout_def)
    next
      case np: False
      define s1 where "s1 = (if fadeEnabled (settings s)
                         then (case setTimeout FadeIn (Finite 10) (s\<lparr> wordOpacity := 0 \<rparr>) of
                                 (ident, s') \<Rightarrow> s'\<lparr> fadeTimeoutId := Some ident \<rparr>)
                         else s)"
      define s2 where "s2 = s1\<lparr> progress := percent (currentWordIndex s1 + 1) (length (words s1)),
                            currentWordIndex := currentWordIndex s1 + 1 \<rparr>"
      define s3 where "s3 = (if readingMode s2 = Reader \<and> contentStructure s2 \<noteq> None
                         then s2\<lparr> highlightWordIndex := Some (currentWordIndex s2) \<rparr>
                         else s2)"
      have c1: "currentWordIndex s1 = currentWordIndex s"
        by (simp add: s1_def setTimeout_def)
      have c3: "currentWordIndex s3 = currentWordIndex s + 1"
        by (simp add: s3_def s2_def c1)
      have "showNextWord s = scheduleNextWord s3"
        using False None np
        unfolding showNextWord_def image_at_position_def s1_def s2_def s3_def Let_def
        by simp
      then have "currentWordIndex (showNextWord s) = currentWordIndex s + 1"
        using same_document_scheduleNextWord [of s3] c3 by (simp add: same_document_def)
      then show ?thesis
        using False None np by (simp add: first_step_advances_def)
    qed
  qed
qed

lemma first_step_advances_cong:
  assumes "currentWordIndex t = currentWordIndex s" "words t = words s"
    "settings t = settings s" "contentStructure t = contentStructure s"
  shows "first_step_advances t = first_step_advances s"
  using assms
  by (cases "contentStructure s") (simp_all add: first_step_advances_def image_at_position_def)

lemma currentWordIndex_start:
  assumes "words s \<noteq> []"
  shows "currentWordIndex (start s)
     = (if first_step_advances s then currentWordIndex s + 1 else currentWordIndex s)"
proof -
  define t where "t = s\<lparr> isPlaying := True, isPaused := False,
                     showSettings := False, showTextInput := False \<rparr>"
  have "start s = startAutoSave (showNextWord t)"
    using assms by (simp add: start_def t_def)
  then have "currentWordIndex (start s) = currentWordIndex (showNextWord t)"
    using same_document_startAutoSave [of "showNextWord t"] by (simp add: same_document_def)
  moreover have "first_step_advances t = first_step_advances s"
    by (rule first_step_advances_cong) (simp_all add: t_def)
  moreover have "currentWordIndex t = currentWordIndex s" by (simp add: t_def)
  ultimately show ?thesis
    using currentWordIndex_showNextWord [of t] by simp
qed

text \<open>
  At an unavailable image marker the forward step changes nothing at all: no pause,
  no advance, no timer.
\<close>

theorem showNextWord_unavailable_image:
  assumes "currentWordIndex s < int (length (words s))"
    and "image_at_position s = Some img" and "unavailable img"
  shows "showNextWord s = s"
  using assms
  by (simp add: showNextWord_def image_at_position_def showImage_def)

theorem showNextWord_unavailable_image_witness:
  "currentWordIndex (epub_app\<lparr> currentWordIndex := 1, isPlaying := True \<rparr>)
      < int (length (words (epub_app\<lparr> currentWordIndex := 1, isPlaying := True \<rparr>)))
   \<and> image_at_position (epub_app\<lparr> currentWordIndex := 1, isPlaying := True \<rparr>) = Some epub_image
   \<and> unavailable epub_image
   \<and> showNextWord (epub_app\<lparr> currentWordIndex := 1, isPlaying := True \<rparr>)
       = epub_app\<lparr> currentWordIndex := 1, isPlaying := True \<rparr>"
proof -
  have a: "currentWordIndex (epub_app\<lparr> currentWordIndex := 1, isPlaying := True \<rparr>)
      < int (length (words (epub_app\<lparr> currentWordIndex := 1, isPlaying := True \<rparr>)))"
    by (simp add: epub_app_def initial_app_def)
  have b: "image_at_position (epub_app\<lparr> currentWordIndex := 1, isPlaying := True \<rparr>) = Some epub_image"
    by (simp add: image_at_position_def epub_app_def initial_app_def one_chapter_def
        epub_image_def default_settings_def)
  have c: "unavailable epub_image" by (simp add: epub_image_def)
  show ?thesis using a b c showNextWord_unavailable_image [OF a b c] by simp
qed

lemma find_append_last: "P t \<Longrightarrow> find P (xs @ [t]) \<noteq> None"
  by (induction xs) auto

text \<open>
  At an ordinary token, during playback and before the last word, the forward step
  advances the position by one and leaves a step timer pending.
\<close>

theorem showNextWord_ordinary_token:
  assumes "first_step_advances s" and "isPlaying s"
    and "currentWordIndex s + 1 < int (length (words s))"
  shows "currentWordIndex (showNextWord s) = currentWordIndex s + 1
       \<and> step_pending (showNextWord s)"
proof -
  define s1 where "s1 = (if fadeEnabled (settings s)
                     then (case setTimeout FadeIn (Finite 10) (s\<lparr> wordOpacity := 0 \<rparr>) of
                             (ident, s') \<Rightarrow> s'\<lparr> fadeTimeoutId := Some ident \<rparr>)
                     else s)"
  define s2 where "s2 = s1\<lparr> progress := percent (currentWordIndex s1 + 1) (length (words s1)),
                        currentWordIndex := currentWordIndex s1 + 1 \<rparr>"
  define s3 where "s3 = (if readingMode s2 = Reader \<and> contentStructure s2 \<noteq> None
                     then s2\<lparr> highlightWordIndex := Some (currentWordIndex s2) \<rparr>
                     else s2)"
  have c1: "currentWordIndex s1 = currentWordIndex s" "isPlaying s1 = isPlaying s"
    "words s1 = words s"
    by (simp_all add: s1_def setTimeout_def)
  have c3: "currentWordIndex s3 = currentWordIndex s + 1" "isPlaying s3" "words s3 = words s"
    using assms(2) by (simp_all add: s3_def s2_def c1)
  have e: "showNextWord s = scheduleNextWord s3"
    using assms(1)
    unfolding showNextWord_def first_step_advances_def image_at_position_def s1_def s2_def
      s3_def Let_def
    by simp
  have "step_pending (scheduleNextWord s3)"
    using c3 assms(3)
    by (simp add: scheduleNextWord_def step_pending_def setTimeout_def Let_def find_append_last)
  then show ?thesis
    using assms(1) currentWordIndex_showNextWord [of s] e by simp
qed

theorem showNextWord_ordinary_token_witness:
  "first_step_advances (initial_app\<lparr> isPlaying := True \<rparr>)
   \<and> isPlaying (initial_app\<lparr> isPlaying := True \<rparr>)
   \<and> currentWordIndex (showNextWord (initial_app\<lparr> isPlaying := True \<rparr>)) = 1
   \<and> step_pending (showNextWord (initial_app\<lparr> isPlaying := True \<rparr>))"
proof -
  have a: "first_step_advances (initial_app\<lparr> isPlaying := True \<rparr>)"
    by (simp add: first_step_advances_def image_at_position_def shouldPauseAtWord_def
      initial_app_def one_chapter_def default_settings_def)
  have b: "isPlaying (initial_app\<lparr> isPlaying := True \<rparr>)" by simp
  have c: "currentWordIndex (initial_app\<lparr> isPlaying := True \<rparr>) + 1
     < int (length (words (initial_app\<lparr> isPlaying := True \<rparr>)))"
    by (simp add: initial_app_def)
  have d: "currentWordIndex (initial_app\<lparr> isPlaying := True \<rparr>) = 0"
    by (simp add: initial_app_def)
  show ?thesis using a b d showNextWord_ordinary_token [OF a b c] by simp
qed

lemma same_document_pause_any_playback [simp]: "same_document s (pause_any_playback s)"
proof -
  have "same_document s (stopReaderAutoScroll (pause s))"
    using same_document_pause [of s] same_document_stopReaderAutoScroll [of "pause s"]
    by (rule same_document_trans)
  then show ?thesis by (simp add: pause_any_playback_def Let_def)
qed

lemma switch_to_reader:
  "currentWordIndex (snd (switchReadingMode Reader s)) = currentWordIndex s
   \<and> words (snd (switchReadingMode Reader s)) = words s
   \<and> settings (snd (switchReadingMode Reader s)) = settings s
   \<and> contentStructure (snd (switchReadingMode Reader s)) = contentStructure s"
proof (cases "readingMode s = Reader \<or> contentStructure s = None")
  case True
  then show ?thesis by (auto simp: switchReadingMode_def)
next
  case False
  define s2 where "s2 = pause_any_playback s"
  have sd: "same_document s s2" by (simp add: s2_def)
  then have m: "readingMode s2 = Rsvp" using False by (cases "readingMode s") (simp_all add: same_document_def)
  obtain cs where cs: "contentStructure s2 = Some cs" using False sd by (auto simp: same_document_def)
  define s3 where "s3 = s2\<lparr> currentChapterIndex :=
                           int (getChapterAtWordIndex (contentStructure s2) (currentWordIndex s2)) \<rparr>"
  define s4 where "s4 = s3\<lparr> readerScrollPosition :=
                             getScrollPercentageInChapter (at_index (chapters cs) (currentChapterIndex s3)) (currentWordIndex s3),
                          highlightWordIndex := Some (currentWordIndex s3) \<rparr>"
  have r: "snd (switchReadingMode Reader s)
      = (case at_index (chapters cs) (currentChapterIndex s3) of None \<Rightarrow> s4
         | Some ch \<Rightarrow> s4\<lparr> readingMode := Reader \<rparr>)"
    using False m cs
    by (auto simp: switchReadingMode_def s2_def [symmetric] Let_def finish_switch_def s3_def s4_def
        split: option.splits)
  have "currentWordIndex s4 = currentWordIndex s" "words s4 = words s" "settings s4 = settings s"
    "contentStructure s4 = contentStructure s"
    using sd by (simp_all add: s4_def s3_def same_document_def)
  then show ?thesis unfolding r by (simp split: option.splits)
qed

lemma switch_to_rsvp:
  assumes "words s \<noteq> []"
  shows "currentWordIndex (snd (switchReadingMode Rsvp s))
     = (if readingMode s = Reader \<and> first_step_advances s then currentWordIndex s + 1
        else currentWordIndex s)"
proof (cases "readingMode s")
  case Rsvp
  then show ?thesis by (simp add: switchReadingMode_def)
next
  case Reader
  define s2 where "s2 = pause_any_playback s"
  define s3 where "s3 = s2\<lparr> progress := percent (currentWordIndex s2) (length (words s2)),
                        highlightWordIndex := None, readingMode := Rsvp \<rparr>"
  have sd: "same_document s s2" by (simp add: s2_def)
  have w3: "words s3 = words s" "currentWordIndex s3 = currentWordIndex s"
    "settings s3 = settings s" "contentStructure s3 = contentStructure s"
    using sd by (simp_all add: s3_def same_document_def)
  have f3: "first_step_advances s3 = first_step_advances s"
    using w3 by (intro first_step_advances_cong) simp_all
  have m: "readingMode s2 = Reader" using sd Reader by (simp add: same_document_def)
  have "snd (switchReadingMode Rsvp s) = start s3"
    using Reader m
    by (simp add: switchReadingMode_def finish_switch_def s2_def [symmetric] s3_def Let_def)
  then show ?thesis
    using currentWordIndex_start [of s3] assms w3 f3 Reader by simp
qed

lemma same_document_handleReaderScroll [simp]: "same_document s (handleReaderScroll p s)"
  by (simp add: same_document_def handleReaderScroll_def)

lemma same_document_scroll_all: "same_document s (scroll_all ps s)"
proof (induction ps arbitrary: s)
  case Nil
  then show ?case by (simp add: scroll_all_def)
next
  case (Cons p ps)
  have "same_document s (handleReaderScroll p s)" by simp
  moreover have "same_document (handleReaderScroll p s) (scroll_all ps (handleReaderScroll p s))"
    by (rule Cons)
  ultimately show ?case
    by (simp add: scroll_all_def same_document_def)
qed

text \<open>
  Claim C4, as the code has it. The switch to the paginated view leaves
  \<open>currentWordIndex\<close> unchanged, and so does every scroll event. The switch back to the
  word-at-a-time view does not assign \<open>currentWordIndex\<close>, but it ends by starting
  playback, and \<open>start\<close> runs the first forward step at once. So, with a word stream
  that is not empty, after the switch to the paginated view, any scrolling and the
  switch back, \<open>currentWordIndex\<close> is one more than before when the paginated view was
  entered and the forward step at the position shows a word, and is unchanged
  otherwise.
\<close>

theorem switchReadingMode_round_trip:
  assumes "words s \<noteq> []"
  shows "currentWordIndex (snd (switchReadingMode Reader s)) = currentWordIndex s
   \<and> currentWordIndex (handleReaderScroll p s) = currentWordIndex s
   \<and> currentWordIndex
       (snd (switchReadingMode Rsvp (scroll_all ps (snd (switchReadingMode Reader s)))))
       = (if readingMode (snd (switchReadingMode Reader s)) = Reader \<and> first_step_advances s
          then currentWordIndex s + 1 else currentWordIndex s)"
proof -
  define s1 where "s1 = snd (switchReadingMode Reader s)"
  define s1' where "s1' = scroll_all ps s1"
  have a: "currentWordIndex s1 = currentWordIndex s" "words s1 = words s"
    "settings s1 = settings s" "contentStructure s1 = contentStructure s"
    using switch_to_reader [of s] by (simp_all add: s1_def)
  have sd: "same_document s1 s1'" unfolding s1'_def by (rule same_document_scroll_all)
  then have b: "currentWordIndex s1' = currentWordIndex s" "words s1' = words s"
    "settings s1' = settings s" "contentStructure s1' = contentStructure s"
    "readingMode s1' = readingMode s1"
    using a by (simp_all add: same_document_def)
  have f: "first_step_advances s1' = first_step_advances s"
    using b by (intro first_step_advances_cong) simp_all
  have "words s1' \<noteq> []" using assms b by simp
  from switch_to_rsvp [OF this] have
    "currentWordIndex (snd (switchReadingMode Rsvp s1'))
       = (if readingMode s1 = Reader \<and> first_step_advances s then currentWordIndex s + 1
          else currentWordIndex s)"
    using b f by simp
  then show ?thesis
    using a by (simp add: s1_def s1'_def handleReaderScroll_def)
qed

lemmas switch_defs = switchReadingMode_def pause_any_playback_def finish_switch_def
  stopReaderAutoScroll_def getChapterAtWordIndex_def getScrollPercentageInChapter_def

text \<open>From the start of a document of three words, not playing: after the two switches
  the position is 1, not 0.\<close>

theorem switchReadingMode_round_trip_counterexample:
  "currentWordIndex
     (snd (switchReadingMode Rsvp (snd (switchReadingMode Reader initial_app))))
   \<noteq> currentWordIndex initial_app"
  by (simp add: switch_defs app_defs initial_app_def one_chapter_def default_settings_def Let_def)

lemma switchReadingMode_Reader_initial: "readingMode (snd (switchReadingMode Reader initial_app)) = Reader"
  by (simp add: switch_defs app_defs initial_app_def one_chapter_def default_settings_def Let_def)

lemma first_step_advances_initial: "first_step_advances initial_app"
  by (simp add: first_step_advances_def image_at_position_def shouldPauseAtWord_def
      initial_app_def one_chapter_def default_settings_def)

theorem switchReadingMode_round_trip_witness:
  "words initial_app \<noteq> []
   \<and> currentWordIndex
       (snd (switchReadingMode Rsvp (scroll_all [50, 80] (snd (switchReadingMode Reader initial_app)))))
      = 1"
proof -
  have w: "words initial_app \<noteq> []" by (simp add: initial_app_def)
  have c: "currentWordIndex initial_app = 0" by (simp add: initial_app_def)
  show ?thesis
    using w c switchReadingMode_Reader_initial first_step_advances_initial switchReadingMode_round_trip [OF w, of 0 "[50, 80]"] by simp
qed

end
